theory Spec2Isabelle
  imports Complex_Main "HOL-Library.Word" "HOL-Library.AList"
begin

section \<open>cut-json: path navigation and rule application\<close>

text \<open>
  A shallow embedding of \<^verbatim>\<open>cutjson/cut_json.go\<close>. The Go code works on the values
  that \<^verbatim>\<open>json.Unmarshal\<close> builds for an \<^verbatim>\<open>interface{}\<close>: \<^verbatim>\<open>nil\<close>, \<^verbatim>\<open>bool\<close>,
  \<^verbatim>\<open>float64\<close>, \<^verbatim>\<open>string\<close>, \<^verbatim>\<open>[]interface{}\<close> and \<^verbatim>\<open>map[string]interface{}\<close>.
  A Go map is a reference: \<^verbatim>\<open>buildResultStructure\<close> stores values of the document in
  the result without copying them and later writes through the maps it finds in the
  result, so the maps live in an explicit store and a map value is an address.
\<close>

subsection \<open>Errors\<close>

text \<open>
  The four error variables of the package, the error made by
  \<^verbatim>\<open>errors.New("path does not point to an array")\<close>, an error of \<^verbatim>\<open>json.Marshal\<close>, and
  the run-time panic of an index expression out of range. The panic is no error value
  in Go: no test \<^verbatim>\<open>err != nil\<close> sees it and it unwinds every caller, so every caller
  in the model passes it on.
\<close>

datatype error =
    ErrInvalidJSON
  | ErrPathNotFound
  | ErrInvalidPath
  | ErrInvalidRule
  | ErrNotAnArray
  | ErrMarshal
  | PanicIndexOutOfRange

subsection \<open>JSON documents and Go values\<close>

text \<open>
  A decoded JSON text, as a tree. A number is the \<^verbatim>\<open>float64\<close> that the decoder
  returns for it, held as the rational it denotes (the two zeros, which \<^verbatim>\<open>==\<close>
  identifies, are one value; a decoded number is never NaN or infinite). An object
  lists its members, in an order that means nothing; a Go map has every key once.
\<close>

datatype json =
    JNull
  | JBool bool
  | JNum rat
  | JStr string
  | JArr "json list"
  | JObj "(string \<times> json) list"

text \<open>
  The values at run time. A slice is never written to by the package, so it is a
  value; a map is the address of its cell in the store.
\<close>

type_synonym addr = nat

datatype val =
    VNil
  | VBool bool
  | VNum rat
  | VStr string
  | VSlice "val list"
  | VMap addr

type_synonym gomap = "(string \<times> val) list"

type_synonym heap = "gomap list"

definition cell :: "heap \<Rightarrow> addr \<Rightarrow> gomap" where
  "cell h a = (if a < length h then h ! a else [])"

text \<open>\<^verbatim>\<open>m[k] = v\<close> on the map at address \<open>a\<close>.\<close>

definition store :: "heap \<Rightarrow> addr \<Rightarrow> string \<Rightarrow> val \<Rightarrow> heap" where
  "store h a k v = h[a := AList.update k v (cell h a)]"

text \<open>
  What \<^verbatim>\<open>json.Unmarshal(jsonData, &data)\<close> leaves in memory for a decoded document:
  a fresh map for every object (a repeated key keeps its last value), no map shared.
\<close>

fun load :: "json \<Rightarrow> heap \<Rightarrow> val \<times> heap"
and load_list :: "json list \<Rightarrow> heap \<Rightarrow> val list \<times> heap"
and load_fields :: "(string \<times> json) list \<Rightarrow> gomap \<Rightarrow> heap \<Rightarrow> gomap \<times> heap" where
  "load JNull h = (VNil, h)"
| "load (JBool b) h = (VBool b, h)"
| "load (JNum n) h = (VNum n, h)"
| "load (JStr s) h = (VStr s, h)"
| "load (JArr xs) h = (case load_list xs h of (vs, h') \<Rightarrow> (VSlice vs, h'))"
| "load (JObj m) h =
     (case load_fields m [] h of (kvs, h') \<Rightarrow> (VMap (length h'), h' @ [kvs]))"
| "load_list [] h = ([], h)"
| "load_list (x # xs) h =
     (case load x h of (v, h1) \<Rightarrow>
        (case load_list xs h1 of (vs, h2) \<Rightarrow> (v # vs, h2)))"
| "load_fields [] acc h = (acc, h)"
| "load_fields ((k, x) # m) acc h =
     (case load x h of (v, h1) \<Rightarrow> load_fields m (AList.update k v acc) h1)"

text \<open>
  The tree that \<^verbatim>\<open>json.Marshal(result)\<close> prints. The encoder follows the maps; on a
  cycle it gives up with an error, which is \<open>None\<close> here: a chain of maps without a
  cycle is never longer than the store, which is the fuel \<open>CutWithRules\<close> gives.
\<close>

fun snapshot :: "nat \<Rightarrow> heap \<Rightarrow> val \<Rightarrow> json option"
and snapshot_list :: "nat \<Rightarrow> heap \<Rightarrow> val list \<Rightarrow> json list option"
and snapshot_fields :: "nat \<Rightarrow> heap \<Rightarrow> gomap \<Rightarrow> (string \<times> json) list option" where
  "snapshot n h VNil = Some JNull"
| "snapshot n h (VBool b) = Some (JBool b)"
| "snapshot n h (VNum x) = Some (JNum x)"
| "snapshot n h (VStr s) = Some (JStr s)"
| "snapshot n h (VSlice vs) = map_option JArr (snapshot_list n h vs)"
| "snapshot 0 h (VMap a) = None"
| "snapshot (Suc n) h (VMap a) = map_option JObj (snapshot_fields n h (cell h a))"
| "snapshot_list n h [] = Some []"
| "snapshot_list n h (v # vs) =
     (case snapshot n h v of
        None \<Rightarrow> None
      | Some j \<Rightarrow>
          (case snapshot_list n h vs of None \<Rightarrow> None | Some js \<Rightarrow> Some (j # js)))"
| "snapshot_fields n h [] = Some []"
| "snapshot_fields n h ((k, v) # kvs) =
     (case snapshot n h v of
        None \<Rightarrow> None
      | Some j \<Rightarrow>
          (case snapshot_fields n h kvs of
             None \<Rightarrow> None
           | Some js \<Rightarrow> Some ((k, j) # js)))"

subsection \<open>Rules\<close>

type_synonym RuleType = int

definition KeepPath :: RuleType where
  "KeepPath = 0"

definition KeepParentIfValueMatches :: RuleType where
  "KeepParentIfValueMatches = 1"

definition KeepArrayElementsIfChildValueMatches :: RuleType where
  "KeepArrayElementsIfChildValueMatches = 2"

text \<open>
  \<^verbatim>\<open>Value\<close> is an \<^verbatim>\<open>interface{}\<close>. The rules that \<^verbatim>\<open>config.go\<close> and the command line
  build hold a decoded JSON value or a Go string there, and the constructors' callers
  in the tests a string or a bool: all values of \<open>json\<close>. The package reads the value
  and never stores or changes it, so it is a tree and not a part of the store.
\<close>

record Rule =
  Type :: RuleType
  Path :: string
  Value :: json
  ChildPath :: string

definition NewKeepPathRule :: "string \<Rightarrow> Rule" where
  "NewKeepPathRule path =
     \<lparr>Type = KeepPath, Path = path, Value = JNull, ChildPath = []\<rparr>"

definition NewKeepParentIfValueMatchesRule :: "string \<Rightarrow> json \<Rightarrow> Rule" where
  "NewKeepParentIfValueMatchesRule path v =
     \<lparr>Type = KeepParentIfValueMatches, Path = path, Value = v, ChildPath = []\<rparr>"

definition NewKeepArrayElementsIfChildValueMatchesRule ::
  "string \<Rightarrow> string \<Rightarrow> json \<Rightarrow> Rule" where
  "NewKeepArrayElementsIfChildValueMatchesRule arrayPath childPath v =
     \<lparr>Type = KeepArrayElementsIfChildValueMatches, Path = arrayPath, Value = v,
      ChildPath = childPath\<rparr>"

subsection \<open>Paths\<close>

text \<open>\<^verbatim>\<open>strings.Split(path, ".")\<close>, the separator one byte.\<close>

fun strings_Split :: "string \<Rightarrow> char \<Rightarrow> string list" where
  "strings_Split [] sep = [[]]"
| "strings_Split (c # cs) sep =
     (if c = sep then [] # strings_Split cs sep
      else (case strings_Split cs sep of
              [] \<Rightarrow> [[c]]
            | w # ws \<Rightarrow> (c # w) # ws))"

definition isDigit :: "char \<Rightarrow> bool" where
  "isDigit c = (\<not> ((of_char c :: nat) < 48 \<or> 57 < (of_char c :: nat)))"

text \<open>
  The loop of \<^verbatim>\<open>navigateToValue\<close> over the segment of an array step. \<^verbatim>\<open>index\<close> is a
  Go \<^verbatim>\<open>int\<close>, 64 bits wide on the usual platforms, and \<^verbatim>\<open>index*10 + int(c-'0')\<close>
  wraps around. The loop
  ranges over runes; a byte of a rune that is not ASCII is above \<^verbatim>\<open>'9'\<close> as the rune
  is, and only the first byte stands at offset 0, so the bytes give the same result.
\<close>

fun scanIndex :: "nat \<Rightarrow> string \<Rightarrow> 64 word \<Rightarrow> error + 64 word" where
  "scanIndex i [] index = Inr index"
| "scanIndex i (c # cs) index =
     (if i = 0 \<and> c = CHR ''-'' then scanIndex (Suc i) cs index
      else if (of_char c :: nat) < 48 \<or> 57 < (of_char c :: nat) then Inl ErrInvalidPath
      else scanIndex (Suc i) cs (index * 10 + of_nat (of_char c - 48)))"

text \<open>
  The array step up to the element's position: the loop, the read of
  \<^verbatim>\<open>currentSegment[0]\<close> (a panic on the empty segment), the sign, the count from the
  end and the range check. \<open>len\<close> is \<^verbatim>\<open>len(v)\<close>, which is not negative, so
  \<^verbatim>\<open>len(v) + index\<close> for a negative index does not wrap.
\<close>

definition elementIndex :: "string \<Rightarrow> nat \<Rightarrow> error + nat" where
  "elementIndex currentSegment len =
     (case scanIndex 0 currentSegment 0 of
        Inl err \<Rightarrow> Inl err
      | Inr index \<Rightarrow>
          (case currentSegment of
             [] \<Rightarrow> Inl PanicIndexOutOfRange
           | c # _ \<Rightarrow>
               (let index1 = (if c = CHR ''-'' then - index else index);
                    index2 = (if sint index1 < 0 then int len + sint index1
                              else sint index1)
                in if index2 < 0 \<or> int len \<le> index2 then Inl ErrPathNotFound
                   else Inr (nat index2))))"

fun navigateToValue :: "heap \<Rightarrow> val \<Rightarrow> string list \<Rightarrow> error + val" where
  "navigateToValue h data [] = Inr data"
| "navigateToValue h (VMap a) (currentSegment # remaining) =
     (case map_of (cell h a) currentSegment of
        None \<Rightarrow> Inl ErrPathNotFound
      | Some v \<Rightarrow> navigateToValue h v remaining)"
| "navigateToValue h (VSlice v) (currentSegment # remaining) =
     (case elementIndex currentSegment (length v) of
        Inl err \<Rightarrow> Inl err
      | Inr index \<Rightarrow> navigateToValue h (v ! index) remaining)"
| "navigateToValue h _ (currentSegment # remaining) = Inl ErrPathNotFound"

subsection \<open>The result\<close>

fun isNumeric :: "string \<Rightarrow> bool" where
  "isNumeric [] = False"
| "isNumeric (c # cs) =
     (if c = CHR ''-'' then (if cs = [] then False else list_all isDigit cs)
      else list_all isDigit (c # cs))"

text \<open>
  \<^verbatim>\<open>buildResultStructure\<close>, from the map \<open>current\<close> on. \<^verbatim>\<open>make(map[string]interface{})\<close>
  takes the next free address. When the value under a segment that is not the last is
  no map, the loop breaks.
\<close>

fun buildResultStructure :: "heap \<Rightarrow> addr \<Rightarrow> string list \<Rightarrow> val \<Rightarrow> heap" where
  "buildResultStructure h current [] value = h"
| "buildResultStructure h current [segment] value = store h current segment value"
| "buildResultStructure h current (segment # nextSegment # rest) value =
     (let h1 = (case map_of (cell h current) segment of
                  Some _ \<Rightarrow> h
                | None \<Rightarrow>
                    if isNumeric nextSegment then store h current segment (VSlice [])
                    else store (h @ [[]]) current segment (VMap (length h)))
      in case map_of (cell h1 current) segment of
           Some (VMap nextMap) \<Rightarrow>
             buildResultStructure h1 nextMap (nextSegment # rest) value
         | _ \<Rightarrow> h1)"

subsection \<open>Deep equality\<close>

text \<open>
  \<^verbatim>\<open>reflect.DeepEqual(a, b)\<close> for a value \<open>a\<close> of the document and the value \<open>b\<close> of a
  rule: values of different types are never equal; numbers, bools and strings are
  compared with \<^verbatim>\<open>==\<close>; slices have the same length and equal elements; maps have the
  same length and every key of \<open>a\<close> is a key of \<open>b\<close> with an equal value.
\<close>

function valueEquals :: "heap \<Rightarrow> val \<Rightarrow> json \<Rightarrow> bool" where
  "valueEquals h VNil b = (case b of JNull \<Rightarrow> True | _ \<Rightarrow> False)"
| "valueEquals h (VBool x) b = (case b of JBool y \<Rightarrow> x = y | _ \<Rightarrow> False)"
| "valueEquals h (VNum x) b = (case b of JNum y \<Rightarrow> x = y | _ \<Rightarrow> False)"
| "valueEquals h (VStr x) b = (case b of JStr y \<Rightarrow> x = y | _ \<Rightarrow> False)"
| "valueEquals h (VSlice xs) b =
     (case b of
        JArr ys \<Rightarrow> length xs = length ys \<and> list_all2 (\<lambda>x y. valueEquals h x y) xs ys
      | _ \<Rightarrow> False)"
| "valueEquals h (VMap a) b =
     (case b of
        JObj m \<Rightarrow>
          length (cell h a) = length m \<and>
          list_all (\<lambda>(k, x). case map_of m k of
                                None \<Rightarrow> False
                              | Some y \<Rightarrow> valueEquals h x y) (cell h a)
      | _ \<Rightarrow> False)"
  by pat_completeness auto
termination
proof (relation "measure (\<lambda>(h, a, b). size b)")
  show "wf (measure (\<lambda>(h, a, b). size b))"
    by simp
next
  fix h :: heap and xs :: "val list" and b ys and x :: val and y :: json
  assume "b = JArr ys" and "y \<in> set ys"
  then show "((h, x, y), (h, VSlice xs, b)) \<in> measure (\<lambda>(h, a, b). size b)"
    by (auto simp: less_Suc_eq_le size_list_estimation')
next
  fix h :: heap and a :: addr and b m and p :: "string \<times> val" and k x and y :: json
  assume "b = JObj m" and "map_of m k = Some y"
  then have "(k, y) \<in> set m"
    by (simp add: map_of_SomeD)
  then have "size y \<le> size_list (size_prod (\<lambda>_. 0) size) m"
    by (induction m) auto
  with \<open>b = JObj m\<close> show "((h, x, y), (h, VMap a, b)) \<in> measure (\<lambda>(h, a, b). size b)"
    by simp
qed

subsection \<open>The three rules\<close>

definition applyKeepPathRule :: "heap \<Rightarrow> val \<Rightarrow> string \<Rightarrow> addr \<Rightarrow> error + heap" where
  "applyKeepPathRule h data path result =
     (let pathSegments = strings_Split path (CHR ''.'')
      in case navigateToValue h data pathSegments of
           Inl err \<Rightarrow> Inl err
         | Inr value \<Rightarrow> Inr (buildResultStructure h result pathSegments value))"

definition applyKeepParentIfValueMatchesRule ::
  "heap \<Rightarrow> val \<Rightarrow> string \<Rightarrow> json \<Rightarrow> addr \<Rightarrow> error + heap" where
  "applyKeepParentIfValueMatchesRule h data path expectedValue result =
     (let pathSegments = strings_Split path (CHR ''.'')
      in case navigateToValue h data pathSegments of
           Inl err \<Rightarrow> Inl err
         | Inr value \<Rightarrow>
             if \<not> valueEquals h value expectedValue then Inr h
             else if 1 < length pathSegments then
               (let parentPathSegments = butlast pathSegments
                in case navigateToValue h data parentPathSegments of
                     Inl err \<Rightarrow> Inl err
                   | Inr parentValue \<Rightarrow>
                       Inr (buildResultStructure h result parentPathSegments parentValue))
             else Inr (buildResultStructure h result pathSegments value))"

text \<open>
  The loop over the elements of the array. An error of the child's navigation drops
  the element; a panic there is no error and ends the call.
\<close>

fun filterArray :: "heap \<Rightarrow> string list \<Rightarrow> json \<Rightarrow> val list \<Rightarrow> val list \<Rightarrow> error + val list" where
  "filterArray h childPathSegments expectedValue [] filteredArray = Inr filteredArray"
| "filterArray h childPathSegments expectedValue (element # array) filteredArray =
     (case navigateToValue h element childPathSegments of
        Inl PanicIndexOutOfRange \<Rightarrow> Inl PanicIndexOutOfRange
      | Inl err \<Rightarrow> filterArray h childPathSegments expectedValue array filteredArray
      | Inr childValue \<Rightarrow>
          if valueEquals h childValue expectedValue
          then filterArray h childPathSegments expectedValue array (filteredArray @ [element])
          else filterArray h childPathSegments expectedValue array filteredArray)"

definition applyKeepArrayElementsIfChildValueMatchesRule ::
  "heap \<Rightarrow> val \<Rightarrow> string \<Rightarrow> string \<Rightarrow> json \<Rightarrow> addr \<Rightarrow> error + heap" where
  "applyKeepArrayElementsIfChildValueMatchesRule h data arrayPath childPath expectedValue result =
     (let arrayPathSegments = strings_Split arrayPath (CHR ''.'')
      in case navigateToValue h data arrayPathSegments of
           Inl err \<Rightarrow> Inl err
         | Inr arrayValue \<Rightarrow>
             (case arrayValue of
                VSlice array \<Rightarrow>
                  (let childPathSegments = strings_Split childPath (CHR ''.'')
                   in case filterArray h childPathSegments expectedValue array [] of
                        Inl err \<Rightarrow> Inl err
                      | Inr filteredArray \<Rightarrow>
                          if 0 < length filteredArray
                          then Inr (buildResultStructure h result arrayPathSegments
                                      (VSlice filteredArray))
                          else Inr h)
              | _ \<Rightarrow> Inl ErrNotAnArray))"

subsection \<open>Applying the rules\<close>

text \<open>
  The loop of \<^verbatim>\<open>applyRules\<close> over the rules, the result map at address \<open>result\<close>. A
  rule that returns an error has written nothing.
\<close>

fun applyRulesLoop :: "heap \<Rightarrow> val \<Rightarrow> addr \<Rightarrow> Rule list \<Rightarrow> error + heap" where
  "applyRulesLoop h data result [] = Inr h"
| "applyRulesLoop h data result (rule # rules) =
     (if Type rule = KeepPath then
        (case applyKeepPathRule h data (Path rule) result of
           Inl err \<Rightarrow>
             if err \<noteq> ErrPathNotFound then Inl err
             else applyRulesLoop h data result rules
         | Inr h' \<Rightarrow> applyRulesLoop h' data result rules)
      else if Type rule = KeepParentIfValueMatches then
        (case applyKeepParentIfValueMatchesRule h data (Path rule) (Value rule) result of
           Inl err \<Rightarrow>
             if err \<noteq> ErrPathNotFound then Inl err
             else applyRulesLoop h data result rules
         | Inr h' \<Rightarrow> applyRulesLoop h' data result rules)
      else if Type rule = KeepArrayElementsIfChildValueMatches then
        (case applyKeepArrayElementsIfChildValueMatchesRule h data (Path rule)
                (ChildPath rule) (Value rule) result of
           Inl err \<Rightarrow>
             if err \<noteq> ErrPathNotFound then Inl err
             else applyRulesLoop h data result rules
         | Inr h' \<Rightarrow> applyRulesLoop h' data result rules)
      else Inl ErrInvalidRule)"

text \<open>\<^verbatim>\<open>applyRules\<close>: the result is a new, empty map.\<close>

definition applyRules :: "heap \<Rightarrow> val \<Rightarrow> Rule list \<Rightarrow> error + heap \<times> addr" where
  "applyRules h data rules =
     (case applyRulesLoop (h @ [[]]) data (length h) rules of
        Inl err \<Rightarrow> Inl err
      | Inr h' \<Rightarrow> Inr (h', length h))"

text \<open>
  \<^verbatim>\<open>CutWithRules\<close>. The text of the document and of the output is the business of
  \<^verbatim>\<open>encoding/json\<close>: \<open>jsonData\<close> is the decoded document, \<open>None\<close> for bytes that are
  empty or no JSON text, and the output is the tree that is printed.
\<close>

definition CutWithRules :: "json option \<Rightarrow> Rule list \<Rightarrow> error + json" where
  "CutWithRules jsonData rules =
     (case jsonData of
        None \<Rightarrow> Inl ErrInvalidJSON
      | Some doc \<Rightarrow>
          (case load doc [] of
             (data, h) \<Rightarrow>
               (case applyRules h data rules of
                  Inl err \<Rightarrow> Inl err
                | Inr (h', result) \<Rightarrow>
                    (case snapshot (length h') h' (VMap result) of
                       None \<Rightarrow> Inl ErrMarshal
                     | Some output \<Rightarrow> Inr output))))"

text \<open>
  For the statements below: the memory in which the rule after the rules \<open>pre\<close> is
  applied, that is the document's root, the store and the address of the result map
  when \<^verbatim>\<open>applyRules\<close> has made the result and run its loop over \<open>pre\<close>.
\<close>

definition memoryAfter :: "json \<Rightarrow> Rule list \<Rightarrow> error + val \<times> heap \<times> addr" where
  "memoryAfter doc pre =
     (case load doc [] of
        (data, h) \<Rightarrow>
          (case applyRulesLoop (h @ [[]]) data (length h) pre of
             Inl err \<Rightarrow> Inl err
           | Inr h1 \<Rightarrow> Inr (data, h1, length h)))"

text \<open>
  For the statements below: the number that a string of decimal digits writes, the
  test that the loop of the array rule makes on an element, and the example document
  of the repository's README, on which its tests run.
\<close>

definition decimal :: "string \<Rightarrow> nat" where
  "decimal ds = foldl (\<lambda>n c. n * 10 + (of_char c - 48)) 0 ds"

definition childMatches :: "heap \<Rightarrow> string list \<Rightarrow> json \<Rightarrow> val \<Rightarrow> bool" where
  "childMatches h childPathSegments expectedValue element =
     (case navigateToValue h element childPathSegments of
        Inl err \<Rightarrow> False
      | Inr childValue \<Rightarrow> valueEquals h childValue expectedValue)"

definition rules_example :: json where
  "rules_example = JObj
     [(''user'', JObj
        [(''name'', JStr ''John Doe''),
         (''age'', JNum 30),
         (''verified'', JBool True),
         (''preferences'', JObj [(''theme'', JStr ''dark''), (''notifications'', JBool True)])]),
      (''products'', JArr
        [JObj [(''id'', JNum 101), (''name'', JStr ''Laptop''),
               (''category'', JStr ''electronics''), (''inStock'', JBool True)],
         JObj [(''id'', JNum 102), (''name'', JStr ''Smartphone''),
               (''category'', JStr ''electronics''), (''inStock'', JBool False)],
         JObj [(''id'', JNum 103), (''name'', JStr ''Headphones''),
               (''category'', JStr ''accessories''), (''inStock'', JBool True)]])]"

text \<open>For the statements below: every map of the store holds a key once.\<close>

definition keysOnce :: "heap \<Rightarrow> bool" where
  "keysOnce h = list_all (\<lambda>m. distinct (map fst m)) h"

text \<open>And so does every object of a decoded document.\<close>

fun keysOnceDoc :: "json \<Rightarrow> bool" where
  "keysOnceDoc (JArr xs) = list_all keysOnceDoc xs"
| "keysOnceDoc (JObj m) = (distinct (map fst m) \<and> list_all (\<lambda>(k, x). keysOnceDoc x) m)"
| "keysOnceDoc _ = True"

section \<open>Properties\<close>

subsection \<open>Navigation\<close>

lemma navigateToValue_append:
  "navigateToValue h data (xs @ ys) =
     (case navigateToValue h data xs of
        Inl e \<Rightarrow> Inl e
      | Inr v \<Rightarrow> navigateToValue h v ys)"
proof (induction xs arbitrary: data)
  case Nil
  then show ?case by simp
next
  case (Cons x xs)
  show ?case
    by (cases data) (simp_all add: Cons.IH split: option.splits sum.splits)
qed

lemma scanIndex_result: "scanIndex i s acc = Inl e \<Longrightarrow> e = ErrInvalidPath"
  by (induction i s acc rule: scanIndex.induct) (auto split: if_splits)

lemma elementIndex_bound: "elementIndex s n = Inr i \<Longrightarrow> i < n"
  by (auto simp: elementIndex_def Let_def split: sum.splits list.splits if_splits)

lemma elementIndex_error:
  "elementIndex s n = Inl e \<Longrightarrow>
     e = ErrInvalidPath \<or> e = ErrPathNotFound \<or> e = PanicIndexOutOfRange"
  by (auto simp: elementIndex_def Let_def split: sum.splits list.splits if_splits
      dest: scanIndex_result)

subsection \<open>The loop over the rules\<close>

lemma strings_Split_not_Nil: "strings_Split s sep \<noteq> []"
  by (induction s) (auto split: list.splits)

lemma cell_store_same: "a < length h \<Longrightarrow> map_of (cell (store h a k v) a) k = Some v"
  by (simp add: cell_def store_def update_Some_unfold)

lemma applyRulesLoop_append:
  "applyRulesLoop h data result (pre @ post) =
     (case applyRulesLoop h data result pre of
        Inl e \<Rightarrow> Inl e
      | Inr h' \<Rightarrow> applyRulesLoop h' data result post)"
  by (induction pre arbitrary: h) (auto split: sum.splits)

lemma applyRulesLoop_not_PathNotFound:
  "applyRulesLoop h data result rules \<noteq> Inl ErrPathNotFound"
  by (induction rules arbitrary: h) (auto split: sum.splits)

lemma CutWithRules_append:
  "CutWithRules (Some doc) (pre @ post) =
     (case memoryAfter doc pre of
        Inl err \<Rightarrow> Inl err
      | Inr (data, h1, result) \<Rightarrow>
          (case applyRulesLoop h1 data result post of
             Inl err \<Rightarrow> Inl err
           | Inr h' \<Rightarrow>
               (case snapshot (length h') h' (VMap result) of
                  None \<Rightarrow> Inl ErrMarshal
                | Some output \<Rightarrow> Inr output)))"
  by (simp add: CutWithRules_def memoryAfter_def applyRules_def applyRulesLoop_append
      split: prod.splits sum.splits)

lemma CutWithRules_not_PathNotFound: "CutWithRules jsonData rules \<noteq> Inl ErrPathNotFound"
  using applyRulesLoop_not_PathNotFound
  by (auto simp: CutWithRules_def applyRules_def split: option.splits prod.splits sum.splits)

lemma CutWithRules_no_rules: "CutWithRules (Some doc) [] = Inr (JObj [])"
  by (simp add: CutWithRules_def applyRules_def cell_def split: prod.splits)

lemma rule_path_error:
  assumes "Type r \<in> {KeepPath, KeepParentIfValueMatches, KeepArrayElementsIfChildValueMatches}"
    and "navigateToValue h data (strings_Split (Path r) (CHR ''.'')) = Inl e"
  shows "applyRulesLoop h data result (r # post) =
           (if e \<noteq> ErrPathNotFound then Inl e else applyRulesLoop h data result post)"
  using assms
  by (auto simp: applyKeepPathRule_def applyKeepParentIfValueMatchesRule_def
      applyKeepArrayElementsIfChildValueMatchesRule_def KeepPath_def
      KeepParentIfValueMatches_def KeepArrayElementsIfChildValueMatches_def)

lemma rule_not_an_array:
  assumes "Type r = KeepArrayElementsIfChildValueMatches"
    and "navigateToValue h data (strings_Split (Path r) (CHR ''.'')) = Inr v"
    and "\<forall>array. v \<noteq> VSlice array"
  shows "applyRulesLoop h data result (r # post) = Inl ErrNotAnArray"
  using assms
  by (cases v) (auto simp: applyKeepArrayElementsIfChildValueMatchesRule_def KeepPath_def
      KeepParentIfValueMatches_def KeepArrayElementsIfChildValueMatches_def)

lemma rule_error_aborts:
  assumes "e \<noteq> ErrPathNotFound"
    and "Type r = KeepPath \<and> applyKeepPathRule h data (Path r) result = Inl e \<or>
         Type r = KeepParentIfValueMatches \<and>
           applyKeepParentIfValueMatchesRule h data (Path r) (Value r) result = Inl e \<or>
         Type r = KeepArrayElementsIfChildValueMatches \<and>
           applyKeepArrayElementsIfChildValueMatchesRule h data (Path r) (ChildPath r) (Value r)
             result = Inl e"
  shows "applyRulesLoop h data result (r # post) = Inl e"
  using assms
  by (auto simp: KeepPath_def KeepParentIfValueMatches_def
      KeepArrayElementsIfChildValueMatches_def)

lemma filterArray_without_panic:
  "\<forall>element \<in> set array.
      navigateToValue h element segs \<noteq> Inl PanicIndexOutOfRange \<Longrightarrow>
   filterArray h segs expected array acc =
     Inr (acc @ filter (childMatches h segs expected) array)"
proof (induction array arbitrary: acc)
  case Nil
  then show ?case by simp
next
  case (Cons element array)
  then have np: "navigateToValue h element segs \<noteq> Inl PanicIndexOutOfRange"
    and rest: "\<forall>element \<in> set array.
      navigateToValue h element segs \<noteq> Inl PanicIndexOutOfRange"
    by simp_all
  show ?case
  proof (cases "navigateToValue h element segs")
    case (Inl e)
    with np have "e \<noteq> PanicIndexOutOfRange" by simp
    then have "filterArray h segs expected (element # array) acc =
        filterArray h segs expected array acc"
      using Inl by (cases e) simp_all
    then show ?thesis
      using Cons.IH [OF rest] Inl by (simp add: childMatches_def)
  next
    case (Inr childValue)
    then show ?thesis
      using Cons.IH [OF rest] by (simp add: childMatches_def)
  qed
qed

lemma rule_child_errors:
  assumes "Type r = KeepArrayElementsIfChildValueMatches"
    and "navigateToValue h data (strings_Split (Path r) (CHR ''.'')) = Inr (VSlice array)"
    and "\<forall>element \<in> set array.
      navigateToValue h element (strings_Split (ChildPath r) (CHR ''.'')) \<noteq> Inl PanicIndexOutOfRange"
  shows "applyRulesLoop h data result (r # post) =
     applyRulesLoop
       (if filter (childMatches h (strings_Split (ChildPath r) (CHR ''.'')) (Value r)) array = []
        then h
        else buildResultStructure h result (strings_Split (Path r) (CHR ''.''))
               (VSlice (filter (childMatches h (strings_Split (ChildPath r) (CHR ''.''))
                          (Value r)) array)))
       data result post"
  using assms(1,2) filterArray_without_panic [OF assms(3), of "Value r" "[]"]
  by (simp add: applyKeepArrayElementsIfChildValueMatchesRule_def KeepPath_def
      KeepParentIfValueMatches_def KeepArrayElementsIfChildValueMatches_def)

lemma filter_child_errors:
  assumes "\<forall>element \<in> set array. \<exists>e. navigateToValue h element segs = Inl e"
  shows "filter (childMatches h segs expected) array = []"
  using assms by (auto simp: filter_empty_conv childMatches_def)

lemma memoryAfter_example:
  "memoryAfter (JObj [(''a'', JArr [JNum 1])]) [] =
     Inr (VMap 0, [[(''a'', VSlice [VNum 1])], []], 1)"
  by (simp add: memoryAfter_def)

text \<open>
  C3. At an array, the empty segment passes the loop over its characters, and the
  read of its first byte is out of range: navigation ends in the panic, not in
  \<open>ErrInvalidPath\<close> or \<open>ErrPathNotFound\<close>. This holds for every array, wherever the
  path reaches it, and it shows at the interface: a call with a rule whose path has
  the empty segment where it reaches an array ends in the panic, for one the call
  with a path with a trailing dot on a document whose member \<open>orders\<close> is an
  array.
\<close>

theorem navigateToValue_empty_segment_panics:
  "navigateToValue h (VSlice v) ([] # remaining) = Inl PanicIndexOutOfRange \<and>
   (navigateToValue h data pre = Inr (VSlice v) \<longrightarrow>
      navigateToValue h data (pre @ [] # remaining) = Inl PanicIndexOutOfRange \<and>
      (memoryAfter doc rs = Inr (data, h, result) \<and>
       Type r \<in> {KeepPath, KeepParentIfValueMatches, KeepArrayElementsIfChildValueMatches} \<and>
       strings_Split (Path r) (CHR ''.'') = pre @ [] # remaining \<longrightarrow>
         CutWithRules (Some doc) (rs @ r # post) = Inl PanicIndexOutOfRange)) \<and>
   CutWithRules (Some (JObj [(''orders'', JArr xs)])) [NewKeepPathRule ''orders.'']
     = Inl PanicIndexOutOfRange"
proof -
  have step: "navigateToValue h (VSlice v) ([] # remaining) = Inl PanicIndexOutOfRange"
    by (simp add: elementIndex_def)
  have reach: "navigateToValue h data (pre @ [] # remaining) = Inl PanicIndexOutOfRange"
    if "navigateToValue h data pre = Inr (VSlice v)"
    using that step by (simp add: navigateToValue_append)
  have abort: "CutWithRules (Some doc) (rs @ r # post) = Inl PanicIndexOutOfRange"
    if "navigateToValue h data pre = Inr (VSlice v)"
      and "memoryAfter doc rs = Inr (data, h, result)"
      and "Type r \<in> {KeepPath, KeepParentIfValueMatches, KeepArrayElementsIfChildValueMatches}"
      and "strings_Split (Path r) (CHR ''.'') = pre @ [] # remaining"
  proof -
    have "navigateToValue h data (strings_Split (Path r) (CHR ''.'')) = Inl PanicIndexOutOfRange"
      using reach that(1,4) by simp
    then have "applyRulesLoop h data result (r # post) = Inl PanicIndexOutOfRange"
      using rule_path_error [OF that(3), of h data PanicIndexOutOfRange] by simp
    then show ?thesis
      by (simp add: CutWithRules_append that(2))
  qed
  have "CutWithRules (Some (JObj [(''orders'', JArr xs)])) [NewKeepPathRule ''orders.'']
          = Inl PanicIndexOutOfRange"
    by (simp add: CutWithRules_def applyRules_def NewKeepPathRule_def KeepPath_def
        applyKeepPathRule_def cell_def elementIndex_def nth_append split: prod.splits)
  with step reach abort show ?thesis
    by simp
qed

theorem navigateToValue_empty_segment_panics_witness:
  "navigateToValue [[(''a'', VSlice [VNum 1])], []] (VMap 0) [''a''] = Inr (VSlice [VNum 1]) \<and>
   navigateToValue [[(''a'', VSlice [VNum 1])], []] (VMap 0) [''a'', []]
     = Inl PanicIndexOutOfRange \<and>
   memoryAfter (JObj [(''a'', JArr [JNum 1])]) [] =
     Inr (VMap 0, [[(''a'', VSlice [VNum 1])], []], 1) \<and>
   strings_Split (Path (NewKeepPathRule ''a.'')) (CHR ''.'') = [''a'', []] \<and>
   CutWithRules (Some (JObj [(''a'', JArr [JNum 1])])) [NewKeepPathRule ''a.'', NewKeepPathRule ''a'']
     = Inl PanicIndexOutOfRange \<and>
   CutWithRules (Some (JObj [(''orders'', JArr [JNum 1])])) [NewKeepPathRule ''orders.'']
     = Inl PanicIndexOutOfRange"
proof -
  let ?h = "[[(''a'', VSlice [VNum 1])], []] :: heap"
  have n: "navigateToValue ?h (VMap 0) [''a''] = Inr (VSlice [VNum 1])"
    by (simp add: cell_def)
  have s: "strings_Split (Path (NewKeepPathRule ''a.'')) (CHR ''.'') = [''a''] @ [] # []"
    by (simp add: NewKeepPathRule_def)
  have t: "Type (NewKeepPathRule ''a.'') \<in>
      {KeepPath, KeepParentIfValueMatches, KeepArrayElementsIfChildValueMatches}"
    by (simp add: NewKeepPathRule_def)
  note c = navigateToValue_empty_segment_panics [of ?h "[VNum 1]" "[]" "VMap 0" "[''a'']" "JObj [(''a'', JArr [JNum 1])]" "[]" 1
      "NewKeepPathRule ''a.''" "[NewKeepPathRule ''a'']" "[JNum 1]"]
  from c n have r: "navigateToValue ?h (VMap 0) ([''a''] @ [] # []) = Inl PanicIndexOutOfRange \<and>
      (memoryAfter (JObj [(''a'', JArr [JNum 1])]) [] = Inr (VMap 0, ?h, 1) \<and>
       Type (NewKeepPathRule ''a.'') \<in>
         {KeepPath, KeepParentIfValueMatches, KeepArrayElementsIfChildValueMatches} \<and>
       strings_Split (Path (NewKeepPathRule ''a.'')) (CHR ''.'') = [''a''] @ [] # [] \<longrightarrow>
         CutWithRules (Some (JObj [(''a'', JArr [JNum 1])]))
           ([] @ NewKeepPathRule ''a.'' # [NewKeepPathRule ''a'']) = Inl PanicIndexOutOfRange)"
    by (rule conjunct2 [THEN conjunct1, THEN mp])
  from r have 1: "navigateToValue ?h (VMap 0) ([''a''] @ [] # []) = Inl PanicIndexOutOfRange"
    by (rule conjunct1)
  from memoryAfter_example t s
  have 2: "CutWithRules (Some (JObj [(''a'', JArr [JNum 1])]))
      ([] @ NewKeepPathRule ''a.'' # [NewKeepPathRule ''a'']) = Inl PanicIndexOutOfRange"
    by (intro conjunct2 [OF r, THEN mp] conjI)
  from c have 3: "CutWithRules (Some (JObj [(''orders'', JArr [JNum 1])]))
      [NewKeepPathRule ''orders.''] = Inl PanicIndexOutOfRange"
    by (rule conjunct2 [THEN conjunct2])
  from 1 2 3 n s memoryAfter_example show ?thesis
    by simp
qed

text \<open>
  C4, as the claim states it, fails: the claim has every navigation error other
  than \<open>ErrPathNotFound\<close> abort the call. The navigation of the child path from an
  element of the array is a navigation too, and its error is dropped with the
  element (\<^verbatim>\<open>err == nil && ...\<close>): here the one element of \<open>rows\<close> is an array,
  the step \<open>first\<close> at it yields \<open>ErrInvalidPath\<close>, and the call goes on to the
  next rule and returns its output.
\<close>

theorem childPath_error_does_not_abort:
  "memoryAfter (JObj [(''rows'', JArr [JArr [JNum 1, JNum 2]]), (''n'', JBool True)]) [] =
     Inr (VMap 0, [[(''rows'', VSlice [VSlice [VNum 1, VNum 2]]), (''n'', VBool True)], []], 1) \<and>
   navigateToValue [[(''rows'', VSlice [VSlice [VNum 1, VNum 2]]), (''n'', VBool True)], []]
     (VMap 0) (strings_Split ''rows'' (CHR ''.'')) = Inr (VSlice [VSlice [VNum 1, VNum 2]]) \<and>
   navigateToValue [[(''rows'', VSlice [VSlice [VNum 1, VNum 2]]), (''n'', VBool True)], []]
     (VSlice [VNum 1, VNum 2]) (strings_Split ''first'' (CHR ''.'')) = Inl ErrInvalidPath \<and>
   CutWithRules (Some (JObj [(''rows'', JArr [JArr [JNum 1, JNum 2]]), (''n'', JBool True)]))
     [NewKeepArrayElementsIfChildValueMatchesRule ''rows'' ''first'' (JNum 1),
      NewKeepPathRule ''n'']
     = Inr (JObj [(''n'', JBool True)])"
  by (simp add: memoryAfter_def CutWithRules_def applyRules_def cell_def store_def elementIndex_def
      NewKeepArrayElementsIfChildValueMatchesRule_def NewKeepPathRule_def KeepPath_def
      KeepParentIfValueMatches_def KeepArrayElementsIfChildValueMatches_def
      applyKeepArrayElementsIfChildValueMatchesRule_def applyKeepPathRule_def)

text \<open>
  C4, amended. \<open>CutWithRules\<close> never returns \<open>ErrPathNotFound\<close>, whatever the
  rules. For a rule \<open>r\<close> of one of the three types, applied after the rules \<open>pre\<close> in
  the memory they leave: when its path does not resolve (\<open>ErrPathNotFound\<close>), the
  loop goes on with the remaining rules \<open>post\<close> in the same memory, and the call
  returns what it returns without the rule; any other error of the navigation of
  its path is the call's result; so is the error of an array rule whose path
  resolves to a value that is not an array; and so is every error but
  \<open>ErrPathNotFound\<close> that the rule's function returns. An error of the navigation
  of the child path from an element is no error of the rule: when the path of an
  array rule resolves to an array and no navigation from an element panics, the
  loop goes on after the rule, which has kept the elements from which the child
  path resolves to a value equal to the expected one; and when the navigation from
  every element yields an error, whichever it is, the rule writes nothing and the
  call returns what it returns without the rule.
\<close>

theorem PathNotFound_swallowed_rule_errors_abort:
  "CutWithRules jsonData rules \<noteq> Inl ErrPathNotFound \<and>
   (Type r \<in> {KeepPath, KeepParentIfValueMatches, KeepArrayElementsIfChildValueMatches} \<longrightarrow>
    memoryAfter doc pre = Inr (data, h1, result) \<longrightarrow>
      (navigateToValue h1 data (strings_Split (Path r) (CHR ''.'')) = Inl ErrPathNotFound \<longrightarrow>
         applyRulesLoop h1 data result (r # post) = applyRulesLoop h1 data result post \<and>
         CutWithRules (Some doc) (pre @ r # post) = CutWithRules (Some doc) (pre @ post)) \<and>
      (\<forall>e. navigateToValue h1 data (strings_Split (Path r) (CHR ''.'')) = Inl e \<and>
           e \<noteq> ErrPathNotFound \<longrightarrow>
         CutWithRules (Some doc) (pre @ r # post) = Inl e) \<and>
      (\<forall>v. Type r = KeepArrayElementsIfChildValueMatches \<and>
           navigateToValue h1 data (strings_Split (Path r) (CHR ''.'')) = Inr v \<and>
           (\<forall>array. v \<noteq> VSlice array) \<longrightarrow>
         CutWithRules (Some doc) (pre @ r # post) = Inl ErrNotAnArray) \<and>
      (\<forall>e. e \<noteq> ErrPathNotFound \<and>
           (Type r = KeepPath \<and> applyKeepPathRule h1 data (Path r) result = Inl e \<or>
            Type r = KeepParentIfValueMatches \<and>
              applyKeepParentIfValueMatchesRule h1 data (Path r) (Value r) result = Inl e \<or>
            Type r = KeepArrayElementsIfChildValueMatches \<and>
              applyKeepArrayElementsIfChildValueMatchesRule h1 data (Path r) (ChildPath r)
                (Value r) result = Inl e) \<longrightarrow>
         CutWithRules (Some doc) (pre @ r # post) = Inl e) \<and>
      (\<forall>array. Type r = KeepArrayElementsIfChildValueMatches \<and>
           navigateToValue h1 data (strings_Split (Path r) (CHR ''.'')) = Inr (VSlice array) \<and>
           (\<forall>element \<in> set array.
              navigateToValue h1 element (strings_Split (ChildPath r) (CHR ''.''))
                \<noteq> Inl PanicIndexOutOfRange) \<longrightarrow>
         applyRulesLoop h1 data result (r # post) =
           applyRulesLoop
             (if filter (childMatches h1 (strings_Split (ChildPath r) (CHR ''.'')) (Value r))
                   array = []
              then h1
              else buildResultStructure h1 result (strings_Split (Path r) (CHR ''.''))
                     (VSlice (filter (childMatches h1 (strings_Split (ChildPath r) (CHR ''.''))
                                (Value r)) array)))
             data result post) \<and>
      (\<forall>array. Type r = KeepArrayElementsIfChildValueMatches \<and>
           navigateToValue h1 data (strings_Split (Path r) (CHR ''.'')) = Inr (VSlice array) \<and>
           (\<forall>element \<in> set array. \<exists>e.
              navigateToValue h1 element (strings_Split (ChildPath r) (CHR ''.'')) = Inl e \<and>
              e \<noteq> PanicIndexOutOfRange) \<longrightarrow>
         applyRulesLoop h1 data result (r # post) = applyRulesLoop h1 data result post \<and>
         CutWithRules (Some doc) (pre @ r # post) = CutWithRules (Some doc) (pre @ post)))"
proof (intro conjI impI allI)
  show "CutWithRules jsonData rules \<noteq> Inl ErrPathNotFound"
    by (rule CutWithRules_not_PathNotFound)
next
  assume t: "Type r \<in> {KeepPath, KeepParentIfValueMatches, KeepArrayElementsIfChildValueMatches}"
    and m: "memoryAfter doc pre = Inr (data, h1, result)"
    and n: "navigateToValue h1 data (strings_Split (Path r) (CHR ''.'')) = Inl ErrPathNotFound"
  show skip: "applyRulesLoop h1 data result (r # post) = applyRulesLoop h1 data result post"
    using rule_path_error [OF t n] by simp
  show "CutWithRules (Some doc) (pre @ r # post) = CutWithRules (Some doc) (pre @ post)"
    by (simp add: CutWithRules_append m skip del: applyRulesLoop.simps)
next
  fix e
  assume t: "Type r \<in> {KeepPath, KeepParentIfValueMatches, KeepArrayElementsIfChildValueMatches}"
    and m: "memoryAfter doc pre = Inr (data, h1, result)"
    and n: "navigateToValue h1 data (strings_Split (Path r) (CHR ''.'')) = Inl e \<and>
            e \<noteq> ErrPathNotFound"
  from n have "applyRulesLoop h1 data result (r # post) = Inl e"
    using rule_path_error [OF t, of h1 data e] by simp
  then show "CutWithRules (Some doc) (pre @ r # post) = Inl e"
    by (simp add: CutWithRules_append m)
next
  fix v
  assume m: "memoryAfter doc pre = Inr (data, h1, result)"
    and n: "Type r = KeepArrayElementsIfChildValueMatches \<and>
           navigateToValue h1 data (strings_Split (Path r) (CHR ''.'')) = Inr v \<and>
           (\<forall>array. v \<noteq> VSlice array)"
  then have "applyRulesLoop h1 data result (r # post) = Inl ErrNotAnArray"
    using rule_not_an_array [of r h1 data v] by simp
  then show "CutWithRules (Some doc) (pre @ r # post) = Inl ErrNotAnArray"
    by (simp add: CutWithRules_append m)
next
  fix e
  assume m: "memoryAfter doc pre = Inr (data, h1, result)"
    and n: "e \<noteq> ErrPathNotFound \<and>
           (Type r = KeepPath \<and> applyKeepPathRule h1 data (Path r) result = Inl e \<or>
            Type r = KeepParentIfValueMatches \<and>
              applyKeepParentIfValueMatchesRule h1 data (Path r) (Value r) result = Inl e \<or>
            Type r = KeepArrayElementsIfChildValueMatches \<and>
              applyKeepArrayElementsIfChildValueMatchesRule h1 data (Path r) (ChildPath r)
                (Value r) result = Inl e)"
  then have "applyRulesLoop h1 data result (r # post) = Inl e"
    using rule_error_aborts [of e r h1 data result post] by blast
  then show "CutWithRules (Some doc) (pre @ r # post) = Inl e"
    by (simp add: CutWithRules_append m)
next
  fix array
  assume n: "Type r = KeepArrayElementsIfChildValueMatches \<and>
           navigateToValue h1 data (strings_Split (Path r) (CHR ''.'')) = Inr (VSlice array) \<and>
           (\<forall>element \<in> set array.
              navigateToValue h1 element (strings_Split (ChildPath r) (CHR ''.''))
                \<noteq> Inl PanicIndexOutOfRange)"
  show "applyRulesLoop h1 data result (r # post) =
           applyRulesLoop
             (if filter (childMatches h1 (strings_Split (ChildPath r) (CHR ''.'')) (Value r))
                   array = []
              then h1
              else buildResultStructure h1 result (strings_Split (Path r) (CHR ''.''))
                     (VSlice (filter (childMatches h1 (strings_Split (ChildPath r) (CHR ''.''))
                                (Value r)) array)))
             data result post"
    by (rule rule_child_errors) (use n in simp_all)
next
  fix array
  assume m: "memoryAfter doc pre = Inr (data, h1, result)"
    and n: "Type r = KeepArrayElementsIfChildValueMatches \<and>
           navigateToValue h1 data (strings_Split (Path r) (CHR ''.'')) = Inr (VSlice array) \<and>
           (\<forall>element \<in> set array. \<exists>e.
              navigateToValue h1 element (strings_Split (ChildPath r) (CHR ''.'')) = Inl e \<and>
              e \<noteq> PanicIndexOutOfRange)"
  from n have np: "\<forall>element \<in> set array.
      navigateToValue h1 element (strings_Split (ChildPath r) (CHR ''.''))
        \<noteq> Inl PanicIndexOutOfRange"
    by auto
  from n have none:
    "filter (childMatches h1 (strings_Split (ChildPath r) (CHR ''.'')) (Value r)) array = []"
    by (intro filter_child_errors) auto
  show skip: "applyRulesLoop h1 data result (r # post) = applyRulesLoop h1 data result post"
    using rule_child_errors [OF _ _ np, of data result post] n none by simp
  show "CutWithRules (Some doc) (pre @ r # post) = CutWithRules (Some doc) (pre @ post)"
    by (simp add: CutWithRules_append m skip del: applyRulesLoop.simps)
qed

theorem PathNotFound_swallowed_rule_errors_abort_witness:
  "CutWithRules (Some (JObj [(''a'', JArr [JNum 1])]))
     [NewKeepPathRule ''b'', NewKeepPathRule ''a''] \<noteq> Inl ErrPathNotFound \<and>
   navigateToValue [[(''a'', VSlice [VNum 1])], []] (VMap 0) (strings_Split ''b'' (CHR ''.''))
     = Inl ErrPathNotFound \<and>
   CutWithRules (Some (JObj [(''a'', JArr [JNum 1])]))
     [NewKeepPathRule ''b'', NewKeepPathRule ''a''] =
   CutWithRules (Some (JObj [(''a'', JArr [JNum 1])])) [NewKeepPathRule ''a''] \<and>
   navigateToValue [[(''a'', VSlice [VNum 1])], []] (VMap 0) (strings_Split ''a.x'' (CHR ''.''))
     = Inl ErrInvalidPath \<and>
   CutWithRules (Some (JObj [(''a'', JArr [JNum 1])]))
     [NewKeepPathRule ''a.x'', NewKeepPathRule ''a''] = Inl ErrInvalidPath \<and>
   navigateToValue [[(''a'', VSlice [VNum 1])], []] (VMap 0) (strings_Split ''a.0'' (CHR ''.''))
     = Inr (VNum 1) \<and>
   CutWithRules (Some (JObj [(''a'', JArr [JNum 1])]))
     [NewKeepArrayElementsIfChildValueMatchesRule ''a.0'' ''k'' JNull, NewKeepPathRule ''a'']
     = Inl ErrNotAnArray \<and>
   applyKeepParentIfValueMatchesRule [[(''a'', VSlice [VNum 1])], []] (VMap 0) ''a.x'' JNull 1
     = Inl ErrInvalidPath \<and>
   CutWithRules (Some (JObj [(''a'', JArr [JNum 1])]))
     [NewKeepParentIfValueMatchesRule ''a.x'' JNull, NewKeepPathRule ''a''] = Inl ErrInvalidPath \<and>
   memoryAfter (JObj [(''a'', JArr [JArr [JNum 1]])]) [] =
     Inr (VMap 0, [[(''a'', VSlice [VSlice [VNum 1]])], []], 1) \<and>
   navigateToValue [[(''a'', VSlice [VSlice [VNum 1]])], []] (VMap 0)
     (strings_Split ''a'' (CHR ''.'')) = Inr (VSlice [VSlice [VNum 1]]) \<and>
   navigateToValue [[(''a'', VSlice [VSlice [VNum 1]])], []] (VSlice [VNum 1])
     (strings_Split ''x'' (CHR ''.'')) = Inl ErrInvalidPath \<and>
   CutWithRules (Some (JObj [(''a'', JArr [JArr [JNum 1]])]))
     [NewKeepArrayElementsIfChildValueMatchesRule ''a'' ''x'' (JNum 1), NewKeepPathRule ''a''] =
   CutWithRules (Some (JObj [(''a'', JArr [JArr [JNum 1]])])) [NewKeepPathRule ''a''] \<and>
   navigateToValue [[(''a'', VSlice [VSlice [VNum 1]])], []] (VSlice [VNum 1])
     (strings_Split ''0'' (CHR ''.'')) = Inr (VNum 1) \<and>
   applyRulesLoop [[(''a'', VSlice [VSlice [VNum 1]])], []] (VMap 0) 1
     [NewKeepArrayElementsIfChildValueMatchesRule ''a'' ''0'' (JNum 1)] =
     Inr [[(''a'', VSlice [VSlice [VNum 1]])], [(''a'', VSlice [VSlice [VNum 1]])]]"
proof -
  let ?doc = "JObj [(''a'', JArr [JNum 1])]"
  let ?h = "[[(''a'', VSlice [VNum 1])], []] :: heap"
  have nb: "navigateToValue ?h (VMap 0) (strings_Split ''b'' (CHR ''.'')) = Inl ErrPathNotFound"
    by (simp add: cell_def)
  have nx: "navigateToValue ?h (VMap 0) (strings_Split ''a.x'' (CHR ''.'')) = Inl ErrInvalidPath"
    by (simp add: cell_def elementIndex_def)
  have n0: "navigateToValue ?h (VMap 0) (strings_Split ''a.0'' (CHR ''.'')) = Inr (VNum 1)"
    by (simp add: cell_def elementIndex_def)
  have tp: "Type (NewKeepPathRule p) \<in>
      {KeepPath, KeepParentIfValueMatches, KeepArrayElementsIfChildValueMatches}" for p
    by (simp add: NewKeepPathRule_def)
  have ta: "Type (NewKeepArrayElementsIfChildValueMatchesRule ''a.0'' ''k'' JNull) \<in>
      {KeepPath, KeepParentIfValueMatches, KeepArrayElementsIfChildValueMatches}"
    by (simp add: NewKeepArrayElementsIfChildValueMatchesRule_def)
  have pb: "Path (NewKeepPathRule p) = p" for p
    by (simp add: NewKeepPathRule_def)
  have pa: "Path (NewKeepArrayElementsIfChildValueMatchesRule ''a.0'' ''k'' JNull) = ''a.0''"
    "Type (NewKeepArrayElementsIfChildValueMatchesRule ''a.0'' ''k'' JNull) =
       KeepArrayElementsIfChildValueMatches"
    by (simp_all add: NewKeepArrayElementsIfChildValueMatchesRule_def)
  note a = PathNotFound_swallowed_rule_errors_abort
      [of "Some ?doc" "[NewKeepPathRule ''b'', NewKeepPathRule ''a'']"
      "NewKeepPathRule ''b''" ?doc "[]" "VMap 0" ?h 1 "[NewKeepPathRule ''a'']"]
  note b = PathNotFound_swallowed_rule_errors_abort [of "Some ?doc" "[]"
      "NewKeepPathRule ''a.x''" ?doc "[]" "VMap 0" ?h 1 "[NewKeepPathRule ''a'']"]
  note c = PathNotFound_swallowed_rule_errors_abort [of "Some ?doc" "[]"
      "NewKeepArrayElementsIfChildValueMatchesRule ''a.0'' ''k'' JNull" ?doc "[]" "VMap 0" ?h 1
      "[NewKeepPathRule ''a'']"]
  from a have 1: "CutWithRules (Some ?doc) [NewKeepPathRule ''b'', NewKeepPathRule ''a'']
      \<noteq> Inl ErrPathNotFound"
    by blast
  from a tp nb have 2:
    "CutWithRules (Some ?doc) ([] @ [NewKeepPathRule ''b'', NewKeepPathRule ''a'']) =
     CutWithRules (Some ?doc) ([] @ [NewKeepPathRule ''a''])"
    by (simp only: pb memoryAfter_example append_Nil)
  from b tp nx have 3:
    "CutWithRules (Some ?doc) ([] @ [NewKeepPathRule ''a.x'', NewKeepPathRule ''a''])
      = Inl ErrInvalidPath"
    using memoryAfter_example by (auto simp only: pb append_Nil)
  from c ta n0 have 4: "CutWithRules (Some ?doc)
      ([] @ [NewKeepArrayElementsIfChildValueMatchesRule ''a.0'' ''k'' JNull, NewKeepPathRule ''a''])
      = Inl ErrNotAnArray"
    using memoryAfter_example by (auto simp only: pa append_Nil)
  have ap: "applyKeepParentIfValueMatchesRule ?h (VMap 0) ''a.x'' JNull 1 = Inl ErrInvalidPath"
    by (simp add: applyKeepParentIfValueMatchesRule_def cell_def elementIndex_def)
  have tk: "Type (NewKeepParentIfValueMatchesRule ''a.x'' JNull) \<in>
      {KeepPath, KeepParentIfValueMatches, KeepArrayElementsIfChildValueMatches}"
    and pk: "Type (NewKeepParentIfValueMatchesRule ''a.x'' JNull) = KeepParentIfValueMatches"
      "Path (NewKeepParentIfValueMatchesRule ''a.x'' JNull) = ''a.x''"
      "Value (NewKeepParentIfValueMatchesRule ''a.x'' JNull) = JNull"
    by (simp_all add: NewKeepParentIfValueMatchesRule_def)
  note d = PathNotFound_swallowed_rule_errors_abort [of "Some ?doc" "[]"
      "NewKeepParentIfValueMatchesRule ''a.x'' JNull" ?doc "[]" "VMap 0" ?h 1
      "[NewKeepPathRule ''a'']"]
  note dd = d [THEN conjunct2, THEN mp, OF tk, THEN mp, OF memoryAfter_example]
  note de = dd [THEN conjunct2, THEN conjunct2, THEN conjunct2, THEN conjunct1,
      THEN spec [where x = ErrInvalidPath], THEN mp]
  have "CutWithRules (Some ?doc)
      ([] @ NewKeepParentIfValueMatchesRule ''a.x'' JNull # [NewKeepPathRule ''a''])
      = Inl ErrInvalidPath"
    by (rule de) (use ap in \<open>simp add: pk\<close>)
  then have 5: "CutWithRules (Some ?doc)
      [NewKeepParentIfValueMatchesRule ''a.x'' JNull, NewKeepPathRule ''a''] = Inl ErrInvalidPath"
    by simp
  let ?doc2 = "JObj [(''a'', JArr [JArr [JNum 1]])]"
  let ?h2 = "[[(''a'', VSlice [VSlice [VNum 1]])], []] :: heap"
  let ?rx = "NewKeepArrayElementsIfChildValueMatchesRule ''a'' ''x'' (JNum 1)"
  let ?r0 = "NewKeepArrayElementsIfChildValueMatchesRule ''a'' ''0'' (JNum 1)"
  have m2: "memoryAfter ?doc2 [] = Inr (VMap 0, ?h2, 1)"
    by (simp add: memoryAfter_def)
  have na: "navigateToValue ?h2 (VMap 0) (strings_Split ''a'' (CHR ''.''))
      = Inr (VSlice [VSlice [VNum 1]])"
    by (simp add: cell_def)
  have cx: "navigateToValue ?h2 (VSlice [VNum 1]) (strings_Split ''x'' (CHR ''.''))
      = Inl ErrInvalidPath"
    by (simp add: elementIndex_def)
  have c0: "navigateToValue ?h2 (VSlice [VNum 1]) (strings_Split ''0'' (CHR ''.''))
      = Inr (VNum 1)"
    by (simp add: elementIndex_def)
  have tx: "Type (NewKeepArrayElementsIfChildValueMatchesRule p c x) \<in>
      {KeepPath, KeepParentIfValueMatches, KeepArrayElementsIfChildValueMatches}"
    and px: "Type (NewKeepArrayElementsIfChildValueMatchesRule p c x) =
        KeepArrayElementsIfChildValueMatches"
      "Path (NewKeepArrayElementsIfChildValueMatchesRule p c x) = p"
      "ChildPath (NewKeepArrayElementsIfChildValueMatchesRule p c x) = c"
      "Value (NewKeepArrayElementsIfChildValueMatchesRule p c x) = x" for p c x
    by (simp_all add: NewKeepArrayElementsIfChildValueMatchesRule_def)
  note f = PathNotFound_swallowed_rule_errors_abort [of "Some ?doc2" "[]" ?rx ?doc2 "[]"
      "VMap 0" ?h2 1 "[NewKeepPathRule ''a'']"]
  note ff = f [THEN conjunct2, THEN mp, OF tx, THEN mp, OF m2]
  note fe = ff [THEN conjunct2, THEN conjunct2, THEN conjunct2, THEN conjunct2, THEN conjunct2,
      THEN spec [where x = "[VSlice [VNum 1]]"], THEN mp, THEN conjunct2]
  have "CutWithRules (Some ?doc2) ([] @ ?rx # [NewKeepPathRule ''a'']) =
      CutWithRules (Some ?doc2) ([] @ [NewKeepPathRule ''a''])"
    by (rule fe) (use na cx in \<open>simp add: px\<close>)
  then have 6: "CutWithRules (Some ?doc2) [?rx, NewKeepPathRule ''a''] =
      CutWithRules (Some ?doc2) [NewKeepPathRule ''a'']"
    by simp
  note g = PathNotFound_swallowed_rule_errors_abort [of "Some ?doc2" "[]" ?r0 ?doc2 "[]"
      "VMap 0" ?h2 1 "[]"]
  note gg = g [THEN conjunct2, THEN mp, OF tx, THEN mp, OF m2]
  note ge = gg [THEN conjunct2, THEN conjunct2, THEN conjunct2, THEN conjunct2, THEN conjunct1,
      THEN spec [where x = "[VSlice [VNum 1]]"], THEN mp]
  have "applyRulesLoop ?h2 (VMap 0) 1 [?r0] =
      applyRulesLoop
        (if filter (childMatches ?h2 (strings_Split (ChildPath ?r0) (CHR ''.'')) (Value ?r0))
              [VSlice [VNum 1]] = []
         then ?h2
         else buildResultStructure ?h2 1 (strings_Split (Path ?r0) (CHR ''.''))
                (VSlice (filter (childMatches ?h2 (strings_Split (ChildPath ?r0) (CHR ''.''))
                           (Value ?r0)) [VSlice [VNum 1]])))
        (VMap 0) 1 []"
    by (rule ge) (use na c0 in \<open>simp add: px\<close>)
  then have 7: "applyRulesLoop ?h2 (VMap 0) 1 [?r0] =
      Inr [[(''a'', VSlice [VSlice [VNum 1]])], [(''a'', VSlice [VSlice [VNum 1]])]]"
    by (simp add: px childMatches_def elementIndex_def cell_def store_def
        del: applyRulesLoop.simps(2))
  from 1 2 3 4 5 ap nb nx n0 have first:
    "CutWithRules (Some (JObj [(''a'', JArr [JNum 1])]))
       [NewKeepPathRule ''b'', NewKeepPathRule ''a''] \<noteq> Inl ErrPathNotFound \<and>
     navigateToValue [[(''a'', VSlice [VNum 1])], []] (VMap 0) (strings_Split ''b'' (CHR ''.''))
       = Inl ErrPathNotFound \<and>
     CutWithRules (Some (JObj [(''a'', JArr [JNum 1])]))
       [NewKeepPathRule ''b'', NewKeepPathRule ''a''] =
     CutWithRules (Some (JObj [(''a'', JArr [JNum 1])])) [NewKeepPathRule ''a''] \<and>
     navigateToValue [[(''a'', VSlice [VNum 1])], []] (VMap 0) (strings_Split ''a.x'' (CHR ''.''))
       = Inl ErrInvalidPath \<and>
     CutWithRules (Some (JObj [(''a'', JArr [JNum 1])]))
       [NewKeepPathRule ''a.x'', NewKeepPathRule ''a''] = Inl ErrInvalidPath \<and>
     navigateToValue [[(''a'', VSlice [VNum 1])], []] (VMap 0) (strings_Split ''a.0'' (CHR ''.''))
       = Inr (VNum 1) \<and>
     CutWithRules (Some (JObj [(''a'', JArr [JNum 1])]))
       [NewKeepArrayElementsIfChildValueMatchesRule ''a.0'' ''k'' JNull, NewKeepPathRule ''a'']
       = Inl ErrNotAnArray \<and>
     applyKeepParentIfValueMatchesRule [[(''a'', VSlice [VNum 1])], []] (VMap 0) ''a.x'' JNull 1
       = Inl ErrInvalidPath \<and>
     CutWithRules (Some (JObj [(''a'', JArr [JNum 1])]))
       [NewKeepParentIfValueMatchesRule ''a.x'' JNull, NewKeepPathRule ''a''] = Inl ErrInvalidPath"
    by simp
  show ?thesis
    by (intro conjI first [THEN conjunct1] m2 na cx 6 c0 7)
      (use first in \<open>simp_all only:\<close>)
qed

subsection \<open>The rule that keeps the parent\<close>

text \<open>
  C10. A \<open>KeepParentIfValueMatches\<close> rule whose path resolves, in the memory of a call
  with this one rule, to a value that does not equal the expected one writes nothing,
  and the call returns what the call without rules returns: the empty object.
\<close>

theorem KeepParentIfValueMatches_no_match_is_noop:
  assumes "memoryAfter doc [] = Inr (data, h1, result)"
    and "navigateToValue h1 data (strings_Split p (CHR ''.'')) = Inr v"
    and "\<not> valueEquals h1 v expected"
  shows "applyKeepParentIfValueMatchesRule h1 data p expected result = Inr h1 \<and>
         CutWithRules (Some doc) [NewKeepParentIfValueMatchesRule p expected] =
           CutWithRules (Some doc) [] \<and>
         CutWithRules (Some doc) [] = Inr (JObj [])"
proof -
  have noop: "applyKeepParentIfValueMatchesRule h1 data p expected result = Inr h1"
    using assms(2,3) by (simp add: applyKeepParentIfValueMatchesRule_def)
  have "applyRulesLoop h1 data result [NewKeepParentIfValueMatchesRule p expected] =
          applyRulesLoop h1 data result []"
    using noop
    by (simp add: NewKeepParentIfValueMatchesRule_def KeepPath_def KeepParentIfValueMatches_def)
  then have "CutWithRules (Some doc) [NewKeepParentIfValueMatchesRule p expected] =
          CutWithRules (Some doc) []"
    using CutWithRules_append [of doc "[]"] by (simp add: assms(1) del: applyRulesLoop.simps)
  then show ?thesis
    using noop by (simp add: CutWithRules_no_rules)
qed

theorem KeepParentIfValueMatches_no_match_is_noop_witness:
  "memoryAfter (JObj [(''a'', JNum 1)]) [] = Inr (VMap 0, [[(''a'', VNum 1)], []], 1) \<and>
   navigateToValue [[(''a'', VNum 1)], []] (VMap 0) (strings_Split ''a'' (CHR ''.''))
     = Inr (VNum 1) \<and>
   \<not> valueEquals [[(''a'', VNum 1)], []] (VNum 1) (JNum 2) \<and>
   CutWithRules (Some (JObj [(''a'', JNum 1)])) [NewKeepParentIfValueMatchesRule ''a'' (JNum 2)] =
     CutWithRules (Some (JObj [(''a'', JNum 1)])) [] \<and>
   CutWithRules (Some (JObj [(''a'', JNum 1)])) [] = Inr (JObj [])"
proof -
  have m: "memoryAfter (JObj [(''a'', JNum 1)]) [] = Inr (VMap 0, [[(''a'', VNum 1)], []], 1)"
    by (simp add: memoryAfter_def)
  have n: "navigateToValue [[(''a'', VNum 1)], []] (VMap 0) (strings_Split ''a'' (CHR ''.''))
             = Inr (VNum 1)"
    by (simp add: cell_def)
  have e: "\<not> valueEquals [[(''a'', VNum 1)], []] (VNum 1) (JNum 2)"
    by simp
  from KeepParentIfValueMatches_no_match_is_noop [OF m n e] m n e show ?thesis
    by simp
qed

subsection \<open>Segments that are no index\<close>







subsection \<open>Maps hold a key once\<close>

lemma keysOnce_cell: "keysOnce h \<Longrightarrow> distinct (map fst (cell h a))"
  by (simp add: keysOnce_def cell_def list_all_length)

lemma keysOnce_store: "keysOnce h \<Longrightarrow> keysOnce (store h a k v)"
  by (auto simp: keysOnce_def store_def cell_def list_all_length nth_list_update
      distinct_update)

lemma keysOnce_append: "keysOnce h \<Longrightarrow> distinct (map fst m) \<Longrightarrow> keysOnce (h @ [m])"
  by (simp add: keysOnce_def)

lemma keysOnce_buildResultStructure:
  "keysOnce h \<Longrightarrow> keysOnce (buildResultStructure h current segs v)"
proof (induction h current segs v rule: buildResultStructure.induct)
  case (1 h current v)
  then show ?case by simp
next
  case (2 h current segment v)
  then show ?case by (simp add: keysOnce_store)
next
  case (3 h current segment nextSegment rest v)
  define h1 where "h1 =
    (case map_of (cell h current) segment of
       Some _ \<Rightarrow> h
     | None \<Rightarrow>
         if isNumeric nextSegment then store h current segment (VSlice [])
         else store (h @ [[]]) current segment (VMap (length h)))"
  have k1: "keysOnce h1"
    using "3.prems" by (simp add: h1_def keysOnce_store keysOnce_append split: option.splits)
  show ?case
  proof (cases "map_of (cell h1 current) segment")
    case None
    then show ?thesis
      using k1 by (simp add: h1_def [symmetric])
  next
    case (Some x)
    show ?thesis
    proof (cases x)
      case (VMap nextMap)
      have "keysOnce (buildResultStructure h1 nextMap (nextSegment # rest) v)"
        using "3.IH" [OF h1_def Some VMap k1] .
      then show ?thesis
        using Some VMap by (simp add: h1_def [symmetric])
    qed (use k1 Some in \<open>simp_all add: h1_def [symmetric]\<close>)
  qed
qed

lemma keysOnce_rule:
  "keysOnce h \<Longrightarrow> applyKeepPathRule h data path result = Inr h' \<Longrightarrow> keysOnce h'"
  "keysOnce h \<Longrightarrow>
     applyKeepParentIfValueMatchesRule h data path expected result = Inr h' \<Longrightarrow> keysOnce h'"
  "keysOnce h \<Longrightarrow>
     applyKeepArrayElementsIfChildValueMatchesRule h data path childPath expected result = Inr h'
       \<Longrightarrow> keysOnce h'"
  by (auto simp: applyKeepPathRule_def applyKeepParentIfValueMatchesRule_def
      applyKeepArrayElementsIfChildValueMatchesRule_def Let_def keysOnce_buildResultStructure
      split: sum.splits if_splits val.splits)

lemma keysOnce_applyRulesLoop:
  "keysOnce h \<Longrightarrow> applyRulesLoop h data result rules = Inr h' \<Longrightarrow> keysOnce h'"
proof (induction rules arbitrary: h)
  case Nil
  then show ?case by simp
next
  case (Cons r rules)
  from Cons.prems(2) show ?case
    by (auto split: if_splits sum.splits
        intro: Cons.IH [OF Cons.prems(1)] Cons.IH [OF keysOnce_rule(1) [OF Cons.prems(1)]]
          Cons.IH [OF keysOnce_rule(2) [OF Cons.prems(1)]]
          Cons.IH [OF keysOnce_rule(3) [OF Cons.prems(1)]])
qed

lemma keysOnce_load:
  "keysOnce h \<Longrightarrow> keysOnce (snd (load x h))"
  "keysOnce h \<Longrightarrow> keysOnce (snd (load_list xs h))"
  "keysOnce h \<Longrightarrow> distinct (map fst acc) \<Longrightarrow>
     distinct (map fst (fst (load_fields m acc h))) \<and> keysOnce (snd (load_fields m acc h))"
proof (induction x h and xs h and m acc h rule: load_load_list_load_fields.induct)
  case (6 m h)
  then show ?case
    by (auto simp: keysOnce_append split: prod.splits)
next
  case (10 k x m acc h)
  then show ?case
    by (auto simp: distinct_update split: prod.splits)
qed (auto split: prod.splits)

lemma memoryAfter_keysOnce:
  "memoryAfter doc pre = Inr (data, h1, result) \<Longrightarrow> distinct (map fst (cell h1 a))"
proof -
  assume m: "memoryAfter doc pre = Inr (data, h1, result)"
  obtain d h where l: "load doc [] = (d, h)"
    by (cases "load doc []")
  have "keysOnce (snd (load doc []))"
    by (rule keysOnce_load(1)) (simp add: keysOnce_def)
  then have "keysOnce (h @ [[]])"
    using l by (simp add: keysOnce_append)
  moreover have "applyRulesLoop (h @ [[]]) d (length h) pre = Inr h1"
    using m l by (simp add: memoryAfter_def split: sum.splits)
  ultimately have "keysOnce h1"
    by (rule keysOnce_applyRulesLoop)
  then show ?thesis
    by (rule keysOnce_cell)
qed

subsection \<open>Deep equality\<close>

lemma valueEquals_slices:
  "valueEquals h (VSlice xs) (JArr ys) =
     (length xs = length ys \<and> (\<forall>i < length xs. valueEquals h (xs ! i) (ys ! i)))"
  by (auto simp: list_all2_conv_all_nth)

lemma distinct_keys_same_length:
  assumes "distinct (map fst c)" and "distinct (map fst m)"
    and "fst ` set c = fst ` set m"
  shows "length c = length m"
proof -
  have "length c = card (fst ` set c)"
    using assms(1) by (metis distinct_card length_map list.set_map)
  also have "\<dots> = card (fst ` set m)"
    by (simp add: assms(3))
  also have "\<dots> = length m"
    using assms(2) by (metis distinct_card length_map list.set_map)
  finally show ?thesis .
qed

lemma distinct_keys_subset_eq:
  assumes "distinct (map fst c)" and "distinct (map fst m)"
    and "length c = length m" and "fst ` set c \<subseteq> fst ` set m"
  shows "fst ` set c = fst ` set m"
proof -
  have "card (fst ` set c) = length c"
    using assms(1) by (metis distinct_card length_map list.set_map)
  moreover have "card (fst ` set m) = length m"
    using assms(2) by (metis distinct_card length_map list.set_map)
  ultimately have "card (fst ` set m) \<le> card (fst ` set c)"
    by (simp add: assms(3))
  then show ?thesis
    using assms(4) by (simp add: card_seteq)
qed

lemma valueEquals_maps:
  assumes dc: "distinct (map fst (cell h a))" and dm: "distinct (map fst m)"
  shows "valueEquals h (VMap a) (JObj m) =
     (fst ` set (cell h a) = fst ` set m \<and>
      (\<forall>k \<in> fst ` set m. \<exists>x y. map_of (cell h a) k = Some x \<and> map_of m k = Some y \<and>
          valueEquals h x y))"
proof
  let ?c = "cell h a"
  assume eq: "valueEquals h (VMap a) (JObj m)"
  then have len: "length ?c = length m"
    and all: "\<And>k x. (k, x) \<in> set ?c \<Longrightarrow> \<exists>y. map_of m k = Some y \<and> valueEquals h x y"
    by (auto simp: list_all_iff split: option.splits)
  have "fst ` set ?c \<subseteq> fst ` set m"
  proof
    fix k assume "k \<in> fst ` set ?c"
    then obtain x where "(k, x) \<in> set ?c" by auto
    then obtain y where "map_of m k = Some y" using all by blast
    then have "(k, y) \<in> set m"
      by (rule map_of_SomeD)
    then show "k \<in> fst ` set m"
      by force
  qed
  then have keys: "fst ` set ?c = fst ` set m"
    using distinct_keys_subset_eq [OF dc dm len] by simp
  have "\<exists>x y. map_of ?c k = Some x \<and> map_of m k = Some y \<and> valueEquals h x y"
    if "k \<in> fst ` set m" for k
  proof -
    from that keys have "k \<in> fst ` set ?c" by simp
    then obtain x where x: "(k, x) \<in> set ?c" by force
    then have "map_of ?c k = Some x"
      using dc by simp
    with all [OF x] show ?thesis by blast
  qed
  with keys show "fst ` set ?c = fst ` set m \<and>
      (\<forall>k \<in> fst ` set m. \<exists>x y. map_of ?c k = Some x \<and> map_of m k = Some y \<and>
          valueEquals h x y)"
    by blast
next
  let ?c = "cell h a"
  assume r: "fst ` set ?c = fst ` set m \<and>
      (\<forall>k \<in> fst ` set m. \<exists>x y. map_of ?c k = Some x \<and> map_of m k = Some y \<and>
          valueEquals h x y)"
  then have len: "length ?c = length m"
    using distinct_keys_same_length [OF dc dm] by simp
  have "\<exists>y. map_of m k = Some y \<and> valueEquals h x y" if "(k, x) \<in> set ?c" for k x
  proof -
    from that have "k \<in> fst ` set (cell h a)"
      by force
    then have "k \<in> fst ` set m"
      using r by simp
    then obtain x' y where "map_of ?c k = Some x'" "map_of m k = Some y" "valueEquals h x' y"
      using r by blast
    moreover have "map_of ?c k = Some x"
      using dc that by simp
    ultimately show ?thesis by simp
  qed
  then have "list_all (\<lambda>(k, x). case map_of m k of None \<Rightarrow> False | Some y \<Rightarrow> valueEquals h x y) ?c"
    by (fastforce simp: list_all_iff)
  with len show "valueEquals h (VMap a) (JObj m)"
    by simp
qed

lemma valueEquals_same_kind:
  "valueEquals h v b \<Longrightarrow>
     (case (v, b) of
        (VNil, JNull) \<Rightarrow> True
      | (VBool _, JBool _) \<Rightarrow> True
      | (VNum _, JNum _) \<Rightarrow> True
      | (VStr _, JStr _) \<Rightarrow> True
      | (VSlice _, JArr _) \<Rightarrow> True
      | (VMap _, JObj _) \<Rightarrow> True
      | _ \<Rightarrow> False)"
  by (cases v; cases b) simp_all

text \<open>
  C8. The equality that the two conditional rules use compares a number of the
  document and a number of a rule by their values: the text they were decoded from
  is no part of either (both come out of the same decoder, as the \<^verbatim>\<open>float64\<close> of the
  number written), so \<open>30\<close> and \<open>30.0\<close> are equal. It is structural throughout:
  strings by content, bools by value, \<open>null\<close> equal to \<open>null\<close> only, arrays of the
  same length with equal elements at every position, objects with the same keys and
  equal values under every key (maps hold a key once, which the maps of the store of
  a call do), and values of two kinds never equal.
\<close>

theorem valueEquals_structural:
  "valueEquals h (VNum x) (JNum y) = (x = y) \<and>
   valueEquals h (VStr s) (JStr t) = (s = t) \<and>
   valueEquals h (VBool p) (JBool q) = (p = q) \<and>
   valueEquals h v JNull = (v = VNil) \<and>
   valueEquals h VNil b = (b = JNull) \<and>
   valueEquals h (VSlice xs) (JArr ys) =
     (length xs = length ys \<and> (\<forall>i < length xs. valueEquals h (xs ! i) (ys ! i))) \<and>
   (distinct (map fst (cell h a)) \<and> distinct (map fst m) \<longrightarrow>
      valueEquals h (VMap a) (JObj m) =
        (fst ` set (cell h a) = fst ` set m \<and>
         (\<forall>k \<in> fst ` set m. \<exists>x y. map_of (cell h a) k = Some x \<and> map_of m k = Some y \<and>
             valueEquals h x y))) \<and>
   (memoryAfter doc pre = Inr (data, h, result) \<and> distinct (map fst m) \<longrightarrow>
      valueEquals h (VMap a) (JObj m) =
        (fst ` set (cell h a) = fst ` set m \<and>
         (\<forall>k \<in> fst ` set m. \<exists>x y. map_of (cell h a) k = Some x \<and> map_of m k = Some y \<and>
             valueEquals h x y))) \<and>
   (valueEquals h v b \<longrightarrow>
      (case (v, b) of
         (VNil, JNull) \<Rightarrow> True
       | (VBool _, JBool _) \<Rightarrow> True
       | (VNum _, JNum _) \<Rightarrow> True
       | (VStr _, JStr _) \<Rightarrow> True
       | (VSlice _, JArr _) \<Rightarrow> True
       | (VMap _, JObj _) \<Rightarrow> True
       | _ \<Rightarrow> False))"
proof -
  have 1: "valueEquals h v JNull = (v = VNil)"
    by (cases v) simp_all
  have 2: "valueEquals h VNil b = (b = JNull)"
    by (cases b) simp_all
  have 3: "valueEquals h (VMap a) (JObj m) =
        (fst ` set (cell h a) = fst ` set m \<and>
         (\<forall>k \<in> fst ` set m. \<exists>x y. map_of (cell h a) k = Some x \<and> map_of m k = Some y \<and>
             valueEquals h x y))"
    if "memoryAfter doc pre = Inr (data, h, result)" and "distinct (map fst m)"
    using valueEquals_maps [OF memoryAfter_keysOnce [OF that(1)] that(2)] .
  show ?thesis
    using 1 2 3 valueEquals_slices [of h xs ys] valueEquals_maps [of h a m]
      valueEquals_same_kind [of h v b]
    by simp
qed

theorem valueEquals_structural_witness:
  "valueEquals [[(''age'', VNum 30), (''name'', VStr ''x'')]] (VNum 30) (JNum (300 / 10)) \<and>
   distinct (map fst (cell [[(''age'', VNum 30), (''name'', VStr ''x'')]] 0)) \<and>
   distinct (map fst [(''name'', JStr ''x''), (''age'', JNum 30)]) \<and>
   valueEquals [[(''age'', VNum 30), (''name'', VStr ''x'')]] (VMap 0)
     (JObj [(''name'', JStr ''x''), (''age'', JNum 30)]) \<and>
   valueEquals [[(''age'', VNum 30), (''name'', VStr ''x'')]] (VSlice [VNum 1, VNil])
     (JArr [JNum 1, JNull]) \<and>
   \<not> valueEquals [[(''age'', VNum 30), (''name'', VStr ''x'')]] (VStr ''30'') (JNum 30) \<and>
   \<not> valueEquals [[(''age'', VNum 30), (''name'', VStr ''x'')]] VNil (JBool False) \<and>
   memoryAfter (JObj [(''a'', JArr [JNum 1])]) [] =
     Inr (VMap 0, [[(''a'', VSlice [VNum 1])], []], 1) \<and>
   valueEquals [[(''a'', VSlice [VNum 1])], []] (VMap 0) (JObj [(''a'', JArr [JNum 1])])"
  using valueEquals_structural [of "[[(''age'', VNum 30), (''name'', VStr ''x'')]]" 30 "300 / 10"
      "''x''" "''x''" True True VNil "JBool False" "[VNum 1, VNil]" "[JNum 1, JNull]" 0
      "[(''name'', JStr ''x''), (''age'', JNum 30)]"]
    valueEquals_structural [of "[[(''a'', VSlice [VNum 1])], []]" 0 0 "[]" "[]" True True VNil JNull
      "[]" "[]" 0 "[(''a'', JArr [JNum 1])]" "JObj [(''a'', JArr [JNum 1])]" "[]" "VMap 0" 1]
    memoryAfter_example
  by (simp add: cell_def)

subsection \<open>Where the code departs from the claims\<close>

text \<open>
  C1. The claim has the output of a \<open>KeepPath\<close> rule hold the value again, also
  under a path with an array index. On the document
  \<^verbatim>\<open>{"orders":[{"id":1},{"id":2}]}\<close> the path \<open>orders.0\<close> resolves to the first
  order, but \<open>buildResultStructure\<close> puts an empty array under \<open>orders\<close> and breaks
  off: the output is \<^verbatim>\<open>{"orders":[]}\<close>, where the path does not resolve.
\<close>

theorem KeepPath_array_index_loses_value:
  "memoryAfter (JObj [(''orders'', JArr [JObj [(''id'', JNum 1)], JObj [(''id'', JNum 2)]])]) [] =
     Inr (VMap 2, [[(''id'', VNum 1)], [(''id'', VNum 2)], [(''orders'', VSlice [VMap 0, VMap 1])],
                   []], 3) \<and>
   navigateToValue [[(''id'', VNum 1)], [(''id'', VNum 2)], [(''orders'', VSlice [VMap 0, VMap 1])], []]
     (VMap 2) (strings_Split ''orders.0'' (CHR ''.'')) = Inr (VMap 0) \<and>
   CutWithRules (Some (JObj [(''orders'', JArr [JObj [(''id'', JNum 1)], JObj [(''id'', JNum 2)]])]))
     [NewKeepPathRule ''orders.0''] = Inr (JObj [(''orders'', JArr [])]) \<and>
   load (JObj [(''orders'', JArr [])]) [] = (VMap 0, [[(''orders'', VSlice [])]]) \<and>
   navigateToValue [[(''orders'', VSlice [])]] (VMap 0) (strings_Split ''orders.0'' (CHR ''.''))
     = Inl ErrPathNotFound"
  by (simp add: memoryAfter_def CutWithRules_def applyRules_def NewKeepPathRule_def KeepPath_def
      applyKeepPathRule_def cell_def store_def elementIndex_def isDigit_def)

text \<open>
  C2. The claim has a call fail when the array path of an array rule resolves to a
  value of the document that is no array. In the document
  \<^verbatim>\<open>{"a":{"items":[{"k":1},{"k":2}]}}\<close> the path \<open>a.items.1.k\<close> resolves to the
  number 2, and the call with that array rule alone fails. After \<open>KeepPath a\<close>, which
  puts the document's own map into the result, the array rule on \<open>a.items\<close> writes
  its filtered array through that map into the document (the map at address 2 is
  the document's and the result's at once); the third rule then finds one element
  only, its path is not found, and the call returns an output.
\<close>

theorem array_rule_on_scalar_passes_after_shared_write:
  "memoryAfter (JObj [(''a'', JObj [(''items'', JArr [JObj [(''k'', JNum 1)], JObj [(''k'', JNum 2)]])])]) []
     = Inr (VMap 3, [[(''k'', VNum 1)], [(''k'', VNum 2)], [(''items'', VSlice [VMap 0, VMap 1])],
                     [(''a'', VMap 2)], []], 4) \<and>
   navigateToValue [[(''k'', VNum 1)], [(''k'', VNum 2)], [(''items'', VSlice [VMap 0, VMap 1])],
                     [(''a'', VMap 2)], []] (VMap 3) (strings_Split ''a.items.1.k'' (CHR ''.''))
     = Inr (VNum 2) \<and>
   CutWithRules (Some (JObj [(''a'', JObj [(''items'', JArr [JObj [(''k'', JNum 1)], JObj [(''k'', JNum 2)]])])]))
     [NewKeepArrayElementsIfChildValueMatchesRule ''a.items.1.k'' ''z'' (JNum 0)]
     = Inl ErrNotAnArray \<and>
   memoryAfter (JObj [(''a'', JObj [(''items'', JArr [JObj [(''k'', JNum 1)], JObj [(''k'', JNum 2)]])])])
     [NewKeepPathRule ''a'',
      NewKeepArrayElementsIfChildValueMatchesRule ''a.items'' ''k'' (JNum 1)]
     = Inr (VMap 3, [[(''k'', VNum 1)], [(''k'', VNum 2)], [(''items'', VSlice [VMap 0])],
                     [(''a'', VMap 2)], [(''a'', VMap 2)]], 4) \<and>
   CutWithRules (Some (JObj [(''a'', JObj [(''items'', JArr [JObj [(''k'', JNum 1)], JObj [(''k'', JNum 2)]])])]))
     [NewKeepPathRule ''a'',
      NewKeepArrayElementsIfChildValueMatchesRule ''a.items'' ''k'' (JNum 1),
      NewKeepArrayElementsIfChildValueMatchesRule ''a.items.1.k'' ''z'' (JNum 0)]
     = Inr (JObj [(''a'', JObj [(''items'', JArr [JObj [(''k'', JNum 1)]])])])"
  by (simp add: memoryAfter_def CutWithRules_def applyRules_def NewKeepPathRule_def KeepPath_def
      NewKeepArrayElementsIfChildValueMatchesRule_def KeepArrayElementsIfChildValueMatches_def
      KeepParentIfValueMatches_def applyKeepArrayElementsIfChildValueMatchesRule_def
      applyKeepPathRule_def cell_def store_def elementIndex_def isDigit_def)

text \<open>
  C5. The claim has an element whose child path fails to resolve left out. With
  the child path \<open>tags.\<close>, whose last segment is empty, on an element whose member
  \<open>tags\<close> is an array, the navigation from the element panics, and so does the call.
\<close>

theorem childPath_empty_segment_panics_in_filter:
  "memoryAfter (JObj [(''items'', JArr [JObj [(''tags'', JArr [JStr ''x''])]])]) [] =
     Inr (VMap 1, [[(''tags'', VSlice [VStr ''x''])], [(''items'', VSlice [VMap 0])], []], 2) \<and>
   navigateToValue [[(''tags'', VSlice [VStr ''x''])], [(''items'', VSlice [VMap 0])], []]
     (VMap 1) (strings_Split ''items'' (CHR ''.'')) = Inr (VSlice [VMap 0]) \<and>
   navigateToValue [[(''tags'', VSlice [VStr ''x''])], [(''items'', VSlice [VMap 0])], []]
     (VMap 0) (strings_Split ''tags.'' (CHR ''.'')) = Inl PanicIndexOutOfRange \<and>
   CutWithRules (Some (JObj [(''items'', JArr [JObj [(''tags'', JArr [JStr ''x''])]])]))
     [NewKeepArrayElementsIfChildValueMatchesRule ''items'' ''tags.'' (JStr ''x'')]
     = Inl PanicIndexOutOfRange"
  by (simp add: memoryAfter_def CutWithRules_def applyRules_def
      NewKeepArrayElementsIfChildValueMatchesRule_def KeepArrayElementsIfChildValueMatches_def
      KeepParentIfValueMatches_def KeepPath_def applyKeepArrayElementsIfChildValueMatchesRule_def
      cell_def store_def elementIndex_def isDigit_def)

text \<open>
  C6. The claim has the parent of the matched value kept, with the members beside
  the matched one. On the document \<^verbatim>\<open>{"a":[{"c":1,"d":2}]}\<close> the path \<open>a.0.c\<close>
  resolves to the number 1, which equals the expected value, and the parent path
  \<open>a.0\<close> to the object with its members \<open>c\<close> and \<open>d\<close>. The rule hands the parent
  path and that object to \<open>buildResultStructure\<close>, which puts an empty array under
  \<open>a\<close> and breaks off: the output is \<^verbatim>\<open>{"a":[]}\<close>, where the parent path does
  not resolve and neither member is kept.
\<close>

theorem KeepParent_array_index_loses_parent:
  "memoryAfter (JObj [(''a'', JArr [JObj [(''c'', JNum 1), (''d'', JNum 2)]])]) [] =
     Inr (VMap 1, [[(''c'', VNum 1), (''d'', VNum 2)], [(''a'', VSlice [VMap 0])], []], 2) \<and>
   navigateToValue [[(''c'', VNum 1), (''d'', VNum 2)], [(''a'', VSlice [VMap 0])], []]
     (VMap 1) (strings_Split ''a.0.c'' (CHR ''.'')) = Inr (VNum 1) \<and>
   valueEquals [[(''c'', VNum 1), (''d'', VNum 2)], [(''a'', VSlice [VMap 0])], []]
     (VNum 1) (JNum 1) \<and>
   navigateToValue [[(''c'', VNum 1), (''d'', VNum 2)], [(''a'', VSlice [VMap 0])], []]
     (VMap 1) (butlast (strings_Split ''a.0.c'' (CHR ''.''))) = Inr (VMap 0) \<and>
   snapshot 3 [[(''c'', VNum 1), (''d'', VNum 2)], [(''a'', VSlice [VMap 0])], []] (VMap 0) =
     Some (JObj [(''c'', JNum 1), (''d'', JNum 2)]) \<and>
   applyKeepParentIfValueMatchesRule
     [[(''c'', VNum 1), (''d'', VNum 2)], [(''a'', VSlice [VMap 0])], []]
     (VMap 1) ''a.0.c'' (JNum 1) 2 =
     Inr [[(''c'', VNum 1), (''d'', VNum 2)], [(''a'', VSlice [VMap 0])], [(''a'', VSlice [])]] \<and>
   navigateToValue [[(''c'', VNum 1), (''d'', VNum 2)], [(''a'', VSlice [VMap 0])], [(''a'', VSlice [])]]
     (VMap 2) (butlast (strings_Split ''a.0.c'' (CHR ''.''))) = Inl ErrPathNotFound \<and>
   CutWithRules (Some (JObj [(''a'', JArr [JObj [(''c'', JNum 1), (''d'', JNum 2)]])]))
     [NewKeepParentIfValueMatchesRule ''a.0.c'' (JNum 1)] = Inr (JObj [(''a'', JArr [])])"
  by (simp add: memoryAfter_def CutWithRules_def applyRules_def NewKeepParentIfValueMatchesRule_def
      KeepParentIfValueMatches_def KeepPath_def applyKeepParentIfValueMatchesRule_def
      cell_def store_def elementIndex_def isDigit_def numeral_3_eq_3)

text \<open>
  C7. The claim has every index from the length of the array on yield
  \<open>ErrPathNotFound\<close>. The index \<open>18446744073709551616\<close>, which is \<open>2 ^ 64\<close>, wraps
  around to 0 in the loop over the segment's digits and addresses the first element,
  as does its negative; a \<open>KeepParentIfValueMatches\<close> rule on that index matches the
  first element.
\<close>

theorem array_index_wraps_around:
  "elementIndex ''18446744073709551616'' 1 = Inr 0 \<and>
   navigateToValue [] (VSlice [VStr ''first'']) [''18446744073709551616''] = Inr (VStr ''first'') \<and>
   elementIndex ''-18446744073709551616'' 1 = Inr 0 \<and>
   CutWithRules (Some (JObj [(''a'', JArr [JStr ''first''])]))
     [NewKeepParentIfValueMatchesRule ''a.18446744073709551616'' (JStr ''first'')]
     = Inr (JObj [(''a'', JArr [JStr ''first''])])"
  by (simp add: CutWithRules_def applyRules_def NewKeepParentIfValueMatchesRule_def
      KeepParentIfValueMatches_def KeepPath_def applyKeepParentIfValueMatchesRule_def
      cell_def store_def elementIndex_def isDigit_def)

section \<open>Further properties\<close>

subsection \<open>Indices that fit the int\<close>

lemma isDigit_not_minus: "isDigit c \<Longrightarrow> c \<noteq> CHR ''-''"
  by (auto simp: isDigit_def)

lemma scanIndex_digits:
  "list_all isDigit ds \<Longrightarrow>
     scanIndex i ds (of_nat n) = Inr (of_nat (foldl (\<lambda>n c. n * 10 + (of_char c - 48)) n ds))"
proof (induction ds arbitrary: i n)
  case Nil
  then show ?case by simp
next
  case (Cons c cs)
  then have d: "isDigit c" and ds: "list_all isDigit cs"
    by simp_all
  have w: "(of_nat n :: 64 word) * 10 + of_nat (of_char c - 48) =
      of_nat (n * 10 + (of_char c - 48))"
    by (simp only: of_nat_add of_nat_mult of_nat_numeral)
  have "scanIndex i (c # cs) (of_nat n) =
          scanIndex (Suc i) cs (of_nat n * 10 + of_nat (of_char c - 48))"
    using d isDigit_not_minus [OF d] by (simp add: isDigit_def del: of_nat_diff)
  then show ?case
    using Cons.IH [OF ds, of "Suc i" "n * 10 + (of_char c - 48)"] by (simp only: w foldl_Cons)
qed

lemma scanIndex_decimal: "list_all isDigit ds \<Longrightarrow> scanIndex i ds 0 = Inr (of_nat (decimal ds))"
  using scanIndex_digits [of ds i 0] by (simp add: decimal_def)

lemma sint_of_nat_small: "n < 2 ^ 63 \<Longrightarrow> sint (of_nat n :: 64 word) = int n"
proof -
  assume "n < 2 ^ 63"
  then have "int n < 2 ^ 63"
    by (metis of_nat_less_iff of_nat_numeral of_nat_power)
  then have "signed_take_bit 63 (int n) = int n"
    by (simp add: signed_take_bit_int_eq_self)
  then show ?thesis
    using sint_sbintrunc' [where 'a = 64, of "int n"] by simp
qed

lemma sint_minus_of_nat_small: "n < 2 ^ 63 \<Longrightarrow> sint (- of_nat n :: 64 word) = - int n"
proof -
  assume a: "n < 2 ^ 63"
  then have "int n < 2 ^ 63"
    by (metis of_nat_less_iff of_nat_numeral of_nat_power)
  then have "signed_take_bit 63 (- int n) = - int n"
    by (simp add: signed_take_bit_int_eq_self)
  then show ?thesis
    using sint_word_minus [where 'a = 64, of "of_nat n"] by (simp add: sint_of_nat_small [OF a])
qed

lemma elementIndex_digits:
  assumes "ds \<noteq> []" and "list_all isDigit ds" and "decimal ds < 2 ^ 63"
  shows "elementIndex ds len =
           (if decimal ds < len then Inr (decimal ds) else Inl ErrPathNotFound)"
proof -
  obtain c cs where ds: "ds = c # cs"
    using assms(1) by (cases ds) auto
  then have "c \<noteq> CHR ''-''"
    using assms(2) isDigit_not_minus by simp
  then show ?thesis
    using scanIndex_decimal [OF assms(2), of 0] sint_of_nat_small [OF assms(3)]
    by (auto simp: elementIndex_def ds Let_def)
qed

lemma elementIndex_minus_digits:
  assumes "list_all isDigit ds" and "decimal ds < 2 ^ 63"
  shows "elementIndex (CHR ''-'' # ds) len =
           (if decimal ds = 0 then (if 0 < len then Inr 0 else Inl ErrPathNotFound)
            else if decimal ds \<le> len then Inr (len - decimal ds)
            else Inl ErrPathNotFound)"
proof -
  have "scanIndex 0 (CHR ''-'' # ds) 0 = Inr (of_nat (decimal ds))"
    using scanIndex_decimal [OF assms(1), of "Suc 0"] by simp
  then show ?thesis
    using sint_minus_of_nat_small [OF assms(2)]
    by (auto simp: elementIndex_def Let_def nat_diff_distrib' simp del: scanIndex.simps)
qed

text \<open>
  The array step for an index that fits the \<^verbatim>\<open>int\<close> (what C7 claims for every
  index). A segment of decimal digits that write a number below \<open>2 ^ 63\<close> addresses
  the element at that position, and yields \<open>ErrPathNotFound\<close> from the length on.
  With a \<open>-\<close> before the digits it addresses the element that many places from the
  end, the first element for the number 0, and yields \<open>ErrPathNotFound\<close> when the
  number is above the length. So \<open>-1\<close> addresses what the digits of the length less
  one address.
\<close>

theorem array_index_within_int_range:
  assumes "list_all isDigit ds" and "decimal ds < 2 ^ 63"
  shows "(ds \<noteq> [] \<longrightarrow>
            navigateToValue h (VSlice v) (ds # remaining) =
              (if decimal ds < length v then navigateToValue h (v ! decimal ds) remaining
               else Inl ErrPathNotFound)) \<and>
         navigateToValue h (VSlice v) ((CHR ''-'' # ds) # remaining) =
           (if decimal ds = 0 then
              (if 0 < length v then navigateToValue h (v ! 0) remaining else Inl ErrPathNotFound)
            else if decimal ds \<le> length v then
              navigateToValue h (v ! (length v - decimal ds)) remaining
            else Inl ErrPathNotFound) \<and>
         (ds \<noteq> [] \<and> decimal ds + 1 = length v \<longrightarrow>
            navigateToValue h (VSlice v) (''-1'' # remaining) =
            navigateToValue h (VSlice v) (ds # remaining))"
proof -
  have m1: "elementIndex ''-1'' (length v) =
      (if 1 \<le> length v then Inr (length v - 1) else Inl ErrPathNotFound)"
    using elementIndex_minus_digits [of "''1''" "length v"] by (simp add: decimal_def isDigit_def)
  have last: "navigateToValue h (VSlice v) (''-1'' # remaining) =
      navigateToValue h (VSlice v) (ds # remaining)"
    if "ds \<noteq> []" and "decimal ds + 1 = length v"
  proof -
    from that(2) have "length v - 1 = decimal ds" "1 \<le> length v" "decimal ds < length v"
      by simp_all
    then show ?thesis
      using elementIndex_digits [OF that(1) assms, of "length v"] m1 by simp
  qed
  show ?thesis
    using elementIndex_digits [OF _ assms, of "length v"]
      elementIndex_minus_digits [OF assms, of "length v"] last
    by simp
qed

theorem array_index_within_int_range_witness:
  "list_all isDigit ''2'' \<and> decimal ''2'' < 2 ^ 63 \<and>
   navigateToValue [] (VSlice [VNum 10, VNum 20, VNum 30]) [''2''] = Inr (VNum 30) \<and>
   navigateToValue [] (VSlice [VNum 10, VNum 20, VNum 30]) [''-2''] = Inr (VNum 20) \<and>
   navigateToValue [] (VSlice [VNum 10, VNum 20, VNum 30]) [''-1''] =
     navigateToValue [] (VSlice [VNum 10, VNum 20, VNum 30]) [''2'']"
proof -
  have d: "list_all isDigit ''2''" "decimal ''2'' < 2 ^ 63" "decimal ''2'' = 2"
    by (simp_all add: isDigit_def decimal_def)
  from array_index_within_int_range [OF d(1,2), of "[]" "[VNum 10, VNum 20, VNum 30]" "[]"] d show ?thesis
    by simp
qed

subsection \<open>The filter of the array rule\<close>

lemma filterArray_panic:
  "\<exists>element \<in> set array. navigateToValue h element segs = Inl PanicIndexOutOfRange \<Longrightarrow>
   filterArray h segs expected array acc = Inl PanicIndexOutOfRange"
proof (induction array arbitrary: acc)
  case Nil
  then show ?case by simp
next
  case (Cons element array)
  show ?case
  proof (cases "navigateToValue h element segs")
    case (Inl e)
    then show ?thesis
      using Cons by (cases e) auto
  next
    case (Inr childValue)
    then show ?thesis
      using Cons by auto
  qed
qed

text \<open>
  The array rule where no element's navigation panics (what C5 claims for every
  array). The rule keeps the elements from which the child path resolves to a value
  equal to the expected one, in their order and as they are; it hands the array of
  them to \<open>buildResultStructure\<close> under the array path, and writes nothing when
  there is none.
\<close>

theorem KeepArrayElements_filters_elements:
  assumes "navigateToValue h data (strings_Split arrayPath (CHR ''.'')) = Inr (VSlice array)"
    and "\<forall>element \<in> set array.
      navigateToValue h element (strings_Split childPath (CHR ''.'')) \<noteq> Inl PanicIndexOutOfRange"
  shows "applyKeepArrayElementsIfChildValueMatchesRule h data arrayPath childPath expected result =
     (if filter (childMatches h (strings_Split childPath (CHR ''.'')) expected) array = []
      then Inr h
      else Inr (buildResultStructure h result (strings_Split arrayPath (CHR ''.''))
             (VSlice (filter (childMatches h (strings_Split childPath (CHR ''.'')) expected) array))))"
  using assms(1) filterArray_without_panic [OF assms(2), of expected "[]"]
  by (simp add: applyKeepArrayElementsIfChildValueMatchesRule_def)

theorem KeepArrayElements_filters_elements_witness:
  "navigateToValue [[(''k'', VNum 1)], [(''k'', VNum 2)], [(''items'', VSlice [VMap 0, VMap 1])], []]
     (VMap 2) (strings_Split ''items'' (CHR ''.'')) = Inr (VSlice [VMap 0, VMap 1]) \<and>
   navigateToValue [[(''k'', VNum 1)], [(''k'', VNum 2)], [(''items'', VSlice [VMap 0, VMap 1])], []]
     (VMap 0) (strings_Split ''k'' (CHR ''.'')) = Inr (VNum 1) \<and>
   navigateToValue [[(''k'', VNum 1)], [(''k'', VNum 2)], [(''items'', VSlice [VMap 0, VMap 1])], []]
     (VMap 1) (strings_Split ''k'' (CHR ''.'')) = Inr (VNum 2) \<and>
   applyKeepArrayElementsIfChildValueMatchesRule
     [[(''k'', VNum 1)], [(''k'', VNum 2)], [(''items'', VSlice [VMap 0, VMap 1])], []]
     (VMap 2) ''items'' ''k'' (JNum 2) 3 =
   Inr [[(''k'', VNum 1)], [(''k'', VNum 2)], [(''items'', VSlice [VMap 0, VMap 1])],
        [(''items'', VSlice [VMap 1])]]"
proof -
  let ?h = "[[(''k'', VNum 1)], [(''k'', VNum 2)], [(''items'', VSlice [VMap 0, VMap 1])], []] :: heap"
  have n: "navigateToValue ?h (VMap 2) (strings_Split ''items'' (CHR ''.'')) =
      Inr (VSlice [VMap 0, VMap 1])"
    by (simp add: cell_def)
  have c0: "navigateToValue ?h (VMap 0) (strings_Split ''k'' (CHR ''.'')) = Inr (VNum 1)"
    and c1: "navigateToValue ?h (VMap 1) (strings_Split ''k'' (CHR ''.'')) = Inr (VNum 2)"
    by (simp_all add: cell_def)
  then have np: "\<forall>element \<in> set [VMap 0, VMap 1].
      navigateToValue ?h element (strings_Split ''k'' (CHR ''.'')) \<noteq> Inl PanicIndexOutOfRange"
    by simp
  from KeepArrayElements_filters_elements [OF n np, of "JNum 2" 3] n c0 c1 show ?thesis
    by (simp add: childMatches_def cell_def store_def)
qed

subsection \<open>The result of one path rule\<close>

lemma scanIndex_numeric: "isNumeric s \<Longrightarrow> \<exists>index. scanIndex 0 s 0 = Inr index"
proof (cases s)
  case Nil
  assume "isNumeric s"
  with Nil show ?thesis by simp
next
  case (Cons c cs)
  assume n: "isNumeric s"
  show ?thesis
  proof (cases "c = CHR ''-''")
    case True
    with n Cons have "list_all isDigit cs"
      by (simp split: if_splits)
    then show ?thesis
      using scanIndex_digits [of cs "Suc 0" 0] True Cons by simp
  next
    case False
    with n Cons have "list_all isDigit s"
      by simp
    then show ?thesis
      using scanIndex_digits [of s 0 0] by simp
  qed
qed

lemma elementIndex_numeric_empty: "isNumeric s \<Longrightarrow> elementIndex s 0 = Inl ErrPathNotFound"
proof -
  assume n: "isNumeric s"
  then obtain index where "scanIndex 0 s 0 = Inr index"
    using scanIndex_numeric by blast
  moreover from n obtain c cs where "s = c # cs"
    by (cases s) auto
  ultimately show ?thesis
    by (simp add: elementIndex_def Let_def del: scanIndex.simps)
qed

lemma cell_store_other: "b \<noteq> a \<Longrightarrow> cell (store h a k v) b = cell h b"
  by (simp add: cell_def store_def)

lemma cell_store_empty: "a < length h \<Longrightarrow> cell h a = [] \<Longrightarrow> cell (store h a k v) a = [(k, v)]"
  by (simp add: cell_def store_def)

lemma length_store: "length (store h a k v) = length h"
  by (simp add: store_def)

lemma cell_append_old: "b < length h \<Longrightarrow> cell (h @ h') b = cell h b"
  by (simp add: cell_def nth_append)

lemma cell_append_new: "cell (h @ [[]]) (length h) = []"
  by (simp add: cell_def)

lemma buildResultStructure_fresh:
  "a < length h \<Longrightarrow> cell h a = [] \<Longrightarrow> segs \<noteq> [] \<Longrightarrow>
     length h \<le> length (buildResultStructure h a segs v) \<and>
     (\<forall>b < length h. b \<noteq> a \<longrightarrow> cell (buildResultStructure h a segs v) b = cell h b) \<and>
     ((\<forall>s \<in> set (tl segs). \<not> isNumeric s) \<longrightarrow>
        navigateToValue (buildResultStructure h a segs v) (VMap a) segs = Inr v) \<and>
     ((\<exists>s \<in> set (tl segs). isNumeric s) \<longrightarrow>
        navigateToValue (buildResultStructure h a segs v) (VMap a) segs = Inl ErrPathNotFound)"
proof (induction segs arbitrary: h a)
  case Nil
  then show ?case by simp
next
  case (Cons segment more)
  note a = \<open>a < length h\<close> and empty = \<open>cell h a = []\<close>
  show ?case
  proof (cases more)
    case Nil
    then show ?thesis
      using a empty by (simp add: length_store cell_store_other cell_store_empty)
  next
    case more: (Cons nextSegment rest)
    show ?thesis
    proof (cases "isNumeric nextSegment")
      case True
      then show ?thesis
        using a empty more
        by (simp add: length_store cell_store_other cell_store_empty elementIndex_numeric_empty)
    next
      case False
      define h1 where "h1 = store (h @ [[]]) a segment (VMap (length h))"
      define h2 where "h2 = buildResultStructure h1 (length h) more v"
      have len1: "length h1 = Suc (length h)"
        by (simp add: h1_def length_store)
      have ca: "cell h1 a = [(segment, VMap (length h))]"
        using a empty by (simp add: h1_def cell_store_empty cell_append_old)
      have fresh: "cell h1 (length h) = []"
        using a by (simp add: h1_def cell_store_other cell_append_new)
      have old: "cell h1 b = cell h b" if "b < length h" "b \<noteq> a" for b
        using that by (simp add: h1_def cell_store_other cell_append_old)
      have build: "buildResultStructure h a (segment # more) v = h2"
        using empty False ca by (simp add: more h1_def [symmetric] h2_def)
      have ih: "length h1 \<le> length h2 \<and>
          (\<forall>b < length h1. b \<noteq> length h \<longrightarrow> cell h2 b = cell h1 b) \<and>
          ((\<forall>s \<in> set (tl more). \<not> isNumeric s) \<longrightarrow>
             navigateToValue h2 (VMap (length h)) more = Inr v) \<and>
          ((\<exists>s \<in> set (tl more). isNumeric s) \<longrightarrow>
             navigateToValue h2 (VMap (length h)) more = Inl ErrPathNotFound)"
        unfolding h2_def
        by (rule Cons.IH) (simp_all add: len1 fresh more)
      have ca2: "cell h2 a = [(segment, VMap (length h))]"
        using ih a ca by (simp add: len1)
      have nav: "navigateToValue h2 (VMap a) (segment # more) =
          navigateToValue h2 (VMap (length h)) more"
        by (simp add: ca2)
      have frame: "cell h2 b = cell h b" if "b < length h" "b \<noteq> a" for b
        using ih that old by (simp add: len1)
      show ?thesis
        unfolding build nav
        using ih frame False by (auto simp: len1 more)
    qed
  qed
qed

lemma memoryAfter_Nil:
  "memoryAfter doc [] = Inr (data, h1, result) \<Longrightarrow>
     result < length h1 \<and> cell h1 result = [] \<and> load doc [] = (data, take result h1)"
  by (auto simp: memoryAfter_def cell_def split: prod.splits)

text \<open>
  The call with one \<open>KeepPath\<close> rule whose path resolves in the document (what C1
  claims for every path). The rule leaves every map of the document as it was. When
  no segment after the first is numeric, navigating the result map along the path
  reaches the value that the path reached in the document. When one is, the result
  holds an empty array there and the navigation yields \<open>ErrPathNotFound\<close>.
\<close>

theorem KeepPath_result_navigation:
  assumes "memoryAfter doc [] = Inr (data, h1, result)"
    and "navigateToValue h1 data (strings_Split p (CHR ''.'')) = Inr v"
  shows "\<exists>h2. memoryAfter doc [NewKeepPathRule p] = Inr (data, h2, result) \<and>
           (\<forall>b < result. cell h2 b = cell h1 b) \<and>
           ((\<forall>s \<in> set (tl (strings_Split p (CHR ''.''))). \<not> isNumeric s) \<longrightarrow>
              navigateToValue h2 (VMap result) (strings_Split p (CHR ''.'')) = Inr v) \<and>
           ((\<exists>s \<in> set (tl (strings_Split p (CHR ''.''))). isNumeric s) \<longrightarrow>
              navigateToValue h2 (VMap result) (strings_Split p (CHR ''.'')) = Inl ErrPathNotFound)"
proof -
  define segs where "segs = strings_Split p (CHR ''.'')"
  define h2 where "h2 = buildResultStructure h1 result segs v"
  have r: "result < length h1" "cell h1 result = []"
    using memoryAfter_Nil [OF assms(1)] by simp_all
  have ne: "segs \<noteq> []"
    by (simp add: segs_def strings_Split_not_Nil)
  have m: "memoryAfter doc [NewKeepPathRule p] = Inr (data, h2, result)"
    using assms
    by (auto simp: memoryAfter_def NewKeepPathRule_def KeepPath_def applyKeepPathRule_def
        h2_def segs_def split: prod.splits)
  have "\<forall>b < result. cell h2 b = cell h1 b"
    using buildResultStructure_fresh [OF r ne, of v] r(1) by (simp add: h2_def)
  then show ?thesis
    using m buildResultStructure_fresh [OF r ne, of v]
    unfolding h2_def [symmetric] segs_def [symmetric] by blast
qed

theorem KeepPath_result_navigation_witness:
  "memoryAfter (JObj [(''a'', JObj [(''b'', JNum 1)])]) [] =
     Inr (VMap 1, [[(''b'', VNum 1)], [(''a'', VMap 0)], []], 2) \<and>
   navigateToValue [[(''b'', VNum 1)], [(''a'', VMap 0)], []] (VMap 1)
     (strings_Split ''a.b'' (CHR ''.'')) = Inr (VNum 1) \<and>
   memoryAfter (JObj [(''a'', JObj [(''b'', JNum 1)])]) [NewKeepPathRule ''a.b''] =
     Inr (VMap 1, [[(''b'', VNum 1)], [(''a'', VMap 0)], [(''a'', VMap 3)], [(''b'', VNum 1)]], 2) \<and>
   navigateToValue [[(''b'', VNum 1)], [(''a'', VMap 0)], [(''a'', VMap 3)], [(''b'', VNum 1)]]
     (VMap 2) (strings_Split ''a.b'' (CHR ''.'')) = Inr (VNum 1)"
proof -
  let ?doc = "JObj [(''a'', JObj [(''b'', JNum 1)])]"
  let ?h1 = "[[(''b'', VNum 1)], [(''a'', VMap 0)], []] :: heap"
  have m: "memoryAfter ?doc [] = Inr (VMap 1, ?h1, 2)"
    by (simp add: memoryAfter_def)
  have n: "navigateToValue ?h1 (VMap 1) (strings_Split ''a.b'' (CHR ''.'')) = Inr (VNum 1)"
    by (simp add: cell_def)
  have s: "\<forall>s \<in> set (tl (strings_Split ''a.b'' (CHR ''.''))). \<not> isNumeric s"
    by (simp add: isDigit_def)
  have m2: "memoryAfter ?doc [NewKeepPathRule ''a.b''] =
     Inr (VMap 1, [[(''b'', VNum 1)], [(''a'', VMap 0)], [(''a'', VMap 3)], [(''b'', VNum 1)]], 2)"
    by (simp add: memoryAfter_def NewKeepPathRule_def KeepPath_def applyKeepPathRule_def
        cell_def store_def isDigit_def)
  from KeepPath_result_navigation [OF m n] s obtain h2 where
    "memoryAfter ?doc [NewKeepPathRule ''a.b''] = Inr (VMap 1, h2, 2)"
    "navigateToValue h2 (VMap 2) (strings_Split ''a.b'' (CHR ''.'')) = Inr (VNum 1)"
    by blast
  with m2 m n show ?thesis
    by simp
qed

subsection \<open>The result of one parent rule\<close>

text \<open>
  What the parent rule hands to \<open>buildResultStructure\<close>, in any memory. When the
  path of a \<open>KeepParentIfValueMatches\<close> rule resolves to a value that equals the
  expected one: with more than one segment, the path without its last segment
  resolves to a value (the parent, which holds the matched value under the last
  segment), and the rule's result is that of \<open>buildResultStructure\<close> on the
  parent's segments and the parent's whole value; with one segment, the result map
  gets the matched value itself under that segment.
\<close>

theorem KeepParentIfValueMatches_keeps_parent:
  assumes "navigateToValue h data (strings_Split path (CHR ''.'')) = Inr v"
    and "valueEquals h v expectedValue"
  shows "(1 < length (strings_Split path (CHR ''.'')) \<longrightarrow>
           (\<exists>parentValue.
              navigateToValue h data (butlast (strings_Split path (CHR ''.''))) = Inr parentValue \<and>
              navigateToValue h parentValue [last (strings_Split path (CHR ''.''))] = Inr v \<and>
              applyKeepParentIfValueMatchesRule h data path expectedValue result =
                Inr (buildResultStructure h result (butlast (strings_Split path (CHR ''.'')))
                       parentValue))) \<and>
         (length (strings_Split path (CHR ''.'')) = 1 \<longrightarrow>
            applyKeepParentIfValueMatchesRule h data path expectedValue result =
              Inr (store h result (hd (strings_Split path (CHR ''.''))) v) \<and>
            (result < length h \<longrightarrow>
               map_of (cell (store h result (hd (strings_Split path (CHR ''.''))) v) result)
                 (hd (strings_Split path (CHR ''.''))) = Some v))"
proof -
  define segs where "segs = strings_Split path (CHR ''.'')"
  have ne: "segs \<noteq> []"
    by (simp add: segs_def strings_Split_not_Nil)
  then have split: "segs = butlast segs @ [last segs]"
    by simp
  have nav: "navigateToValue h data segs = Inr v"
    using assms(1) by (simp add: segs_def)
  have "navigateToValue h data (butlast segs @ [last segs]) = Inr v"
    using nav split by simp
  then obtain parentValue where
    p: "navigateToValue h data (butlast segs) = Inr parentValue"
    and l: "navigateToValue h parentValue [last segs] = Inr v"
    by (auto simp: navigateToValue_append split: sum.splits)
  have multi: "1 < length segs \<Longrightarrow>
      applyKeepParentIfValueMatchesRule h data path expectedValue result =
        Inr (buildResultStructure h result (butlast segs) parentValue)"
    using nav assms(2) p
    by (simp add: applyKeepParentIfValueMatchesRule_def segs_def [symmetric])
  have single: "length segs = 1 \<Longrightarrow>
      applyKeepParentIfValueMatchesRule h data path expectedValue result =
        Inr (store h result (hd segs) v)"
    using nav assms(2)
    by (cases segs) (simp_all add: applyKeepParentIfValueMatchesRule_def segs_def [symmetric])
  show ?thesis
    unfolding segs_def [symmetric]
    using p l multi single by (auto simp: cell_store_same)
qed

theorem KeepParentIfValueMatches_keeps_parent_witness:
  "navigateToValue [[(''theme'', VStr ''dark''), (''sound'', VBool True)], [(''prefs'', VMap 0)], []]
     (VMap 1) (strings_Split ''prefs.theme'' (CHR ''.'')) = Inr (VStr ''dark'') \<and>
   valueEquals [[(''theme'', VStr ''dark''), (''sound'', VBool True)], [(''prefs'', VMap 0)], []]
     (VStr ''dark'') (JStr ''dark'') \<and>
   applyKeepParentIfValueMatchesRule
     [[(''theme'', VStr ''dark''), (''sound'', VBool True)], [(''prefs'', VMap 0)], []]
     (VMap 1) ''prefs.theme'' (JStr ''dark'') 2 =
   Inr (buildResultStructure
     [[(''theme'', VStr ''dark''), (''sound'', VBool True)], [(''prefs'', VMap 0)], []]
     2 [''prefs''] (VMap 0)) \<and>
   applyKeepParentIfValueMatchesRule
     [[(''theme'', VStr ''dark''), (''sound'', VBool True)], [(''prefs'', VMap 0)], []]
     (VMap 0) ''theme'' (JStr ''dark'') 2 =
   Inr [[(''theme'', VStr ''dark''), (''sound'', VBool True)], [(''prefs'', VMap 0)],
        [(''theme'', VStr ''dark'')]]"
proof -
  let ?h = "[[(''theme'', VStr ''dark''), (''sound'', VBool True)], [(''prefs'', VMap 0)], []] :: heap"
  have n1: "navigateToValue ?h (VMap 1) (strings_Split ''prefs.theme'' (CHR ''.''))
              = Inr (VStr ''dark'')"
    by (simp add: cell_def)
  have n2: "navigateToValue ?h (VMap 0) (strings_Split ''theme'' (CHR ''.'')) = Inr (VStr ''dark'')"
    by (simp add: cell_def)
  have e: "valueEquals ?h (VStr ''dark'') (JStr ''dark'')"
    by simp
  have s1: "strings_Split ''prefs.theme'' (CHR ''.'') = [''prefs'', ''theme'']"
    and s2: "strings_Split ''theme'' (CHR ''.'') = [''theme'']"
    by simp_all
  from KeepParentIfValueMatches_keeps_parent [OF n1 e, of 2]
    KeepParentIfValueMatches_keeps_parent [OF n2 e, of 2] n1 e
  show ?thesis
    unfolding s1 s2 by (auto simp: cell_def store_def)
qed

lemma memoryAfter_Nil_length:
  "memoryAfter doc [] = Inr (data, h1, result) \<Longrightarrow> length h1 = Suc result"
  by (auto simp: memoryAfter_def split: prod.splits)

lemma navigateToValue_step_frame:
  assumes "navigateToValue h1 parent [s] = Inr v"
    and "\<And>b. map_of (cell h1 b) s = Some v \<Longrightarrow> cell h2 b = cell h1 b"
  shows "navigateToValue h2 parent [s] = Inr v"
  using assms by (cases parent) (auto split: option.splits sum.splits)

text \<open>
  The call with one \<open>KeepParentIfValueMatches\<close> rule whose path resolves in the
  document to a value equal to the expected one (what C6 claims for every path).
  The rule leaves every map of the document as it was. With one segment, the result
  map holds the matched value under it. With more, the rule builds the result from
  the parent's segments and the parent's value: when no segment of the parent path
  after the first is numeric, navigating the result map along the parent path
  reaches the parent, the very value of the document, from which the last segment
  still resolves to the matched value; when one is, the result holds an empty array
  there and the navigation yields \<open>ErrPathNotFound\<close>.
\<close>

theorem KeepParent_result_navigation:
  assumes "memoryAfter doc [] = Inr (data, h1, result)"
    and "navigateToValue h1 data (strings_Split p (CHR ''.'')) = Inr v"
    and "valueEquals h1 v expected"
  shows "\<exists>h2. memoryAfter doc [NewKeepParentIfValueMatchesRule p expected] = Inr (data, h2, result) \<and>
           (\<forall>b < result. cell h2 b = cell h1 b) \<and>
           (length (strings_Split p (CHR ''.'')) = 1 \<longrightarrow>
              navigateToValue h2 (VMap result) (strings_Split p (CHR ''.'')) = Inr v) \<and>
           (1 < length (strings_Split p (CHR ''.'')) \<longrightarrow>
              (\<exists>parentValue.
                 navigateToValue h1 data (butlast (strings_Split p (CHR ''.''))) = Inr parentValue \<and>
                 navigateToValue h1 parentValue [last (strings_Split p (CHR ''.''))] = Inr v \<and>
                 h2 = buildResultStructure h1 result (butlast (strings_Split p (CHR ''.'')))
                        parentValue \<and>
                 ((\<forall>s \<in> set (tl (butlast (strings_Split p (CHR ''.'')))). \<not> isNumeric s) \<longrightarrow>
                    navigateToValue h2 (VMap result) (butlast (strings_Split p (CHR ''.'')))
                      = Inr parentValue \<and>
                    navigateToValue h2 parentValue [last (strings_Split p (CHR ''.''))] = Inr v) \<and>
                 ((\<exists>s \<in> set (tl (butlast (strings_Split p (CHR ''.'')))). isNumeric s) \<longrightarrow>
                    navigateToValue h2 (VMap result) (butlast (strings_Split p (CHR ''.'')))
                      = Inl ErrPathNotFound)))"
proof -
  define segs where "segs = strings_Split p (CHR ''.'')"
  have r: "result < length h1" "cell h1 result = []"
    using memoryAfter_Nil [OF assms(1)] by simp_all
  have len: "length h1 = Suc result"
    by (rule memoryAfter_Nil_length [OF assms(1)])
  have ne: "segs \<noteq> []"
    by (simp add: segs_def strings_Split_not_Nil)
  have nav: "navigateToValue h1 data segs = Inr v"
    using assms(2) by (simp add: segs_def)
  have "navigateToValue h1 data (butlast segs @ [last segs]) = Inr v"
    using nav ne by simp
  then obtain parentValue where
    p: "navigateToValue h1 data (butlast segs) = Inr parentValue"
    and l: "navigateToValue h1 parentValue [last segs] = Inr v"
    by (auto simp: navigateToValue_append split: sum.splits)
  show ?thesis
  proof (cases "1 < length segs")
    case False
    then obtain s where s: "segs = [s]"
      using ne by (cases segs) auto
    define h2 where "h2 = store h1 result s v"
    have m: "memoryAfter doc [NewKeepParentIfValueMatchesRule p expected] = Inr (data, h2, result)"
      using assms nav s
      by (auto simp: memoryAfter_def NewKeepParentIfValueMatchesRule_def KeepPath_def
          KeepParentIfValueMatches_def applyKeepParentIfValueMatchesRule_def h2_def
          segs_def [symmetric] split: prod.splits)
    have f: "\<forall>b < result. cell h2 b = cell h1 b"
      by (simp add: h2_def cell_store_other)
    have n: "navigateToValue h2 (VMap result) segs = Inr v"
      using r by (simp add: s h2_def cell_store_same)
    show ?thesis
      unfolding segs_def [symmetric]
      using m f n s by auto
  next
    case True
    define h2 where "h2 = buildResultStructure h1 result (butlast segs) parentValue"
    have bne: "butlast segs \<noteq> []"
      using True by (cases segs) auto
    have m: "memoryAfter doc [NewKeepParentIfValueMatchesRule p expected] = Inr (data, h2, result)"
      using assms nav p True
      by (auto simp: memoryAfter_def NewKeepParentIfValueMatchesRule_def KeepPath_def
          KeepParentIfValueMatches_def applyKeepParentIfValueMatchesRule_def h2_def
          segs_def [symmetric] split: prod.splits)
    note fresh = buildResultStructure_fresh [OF r bne, of parentValue, folded h2_def]
    have f: "\<forall>b < result. cell h2 b = cell h1 b"
      using fresh r(1) by simp
    have keep: "navigateToValue h2 parentValue [last segs] = Inr v"
    proof (rule navigateToValue_step_frame [OF l])
      fix b
      assume b: "map_of (cell h1 b) (last segs) = Some v"
      then have "cell h1 b \<noteq> []"
        by auto
      then have "b < length h1" "b \<noteq> result"
        using r(2) by (auto simp: cell_def split: if_splits)
      then have "b < result"
        using len by simp
      then show "cell h2 b = cell h1 b"
        using f by simp
    qed
    show ?thesis
      unfolding segs_def [symmetric]
      using m f p l keep fresh True h2_def by auto
  qed
qed

theorem KeepParent_result_navigation_witness:
  "memoryAfter (JObj [(''prefs'', JObj [(''theme'', JStr ''dark''), (''sound'', JBool True)])]) [] =
     Inr (VMap 1, [[(''theme'', VStr ''dark''), (''sound'', VBool True)], [(''prefs'', VMap 0)], []],
          2) \<and>
   navigateToValue [[(''theme'', VStr ''dark''), (''sound'', VBool True)], [(''prefs'', VMap 0)], []]
     (VMap 1) (strings_Split ''prefs.theme'' (CHR ''.'')) = Inr (VStr ''dark'') \<and>
   valueEquals [[(''theme'', VStr ''dark''), (''sound'', VBool True)], [(''prefs'', VMap 0)], []]
     (VStr ''dark'') (JStr ''dark'') \<and>
   memoryAfter (JObj [(''prefs'', JObj [(''theme'', JStr ''dark''), (''sound'', JBool True)])])
     [NewKeepParentIfValueMatchesRule ''prefs.theme'' (JStr ''dark'')] =
     Inr (VMap 1, [[(''theme'', VStr ''dark''), (''sound'', VBool True)], [(''prefs'', VMap 0)],
                   [(''prefs'', VMap 0)]], 2) \<and>
   navigateToValue [[(''theme'', VStr ''dark''), (''sound'', VBool True)], [(''prefs'', VMap 0)],
                    [(''prefs'', VMap 0)]] (VMap 2) [''prefs''] = Inr (VMap 0) \<and>
   navigateToValue [[(''theme'', VStr ''dark''), (''sound'', VBool True)], [(''prefs'', VMap 0)],
                    [(''prefs'', VMap 0)]] (VMap 0) [''theme''] = Inr (VStr ''dark'')"
proof -
  let ?doc = "JObj [(''prefs'', JObj [(''theme'', JStr ''dark''), (''sound'', JBool True)])]"
  let ?h1 = "[[(''theme'', VStr ''dark''), (''sound'', VBool True)], [(''prefs'', VMap 0)], []] :: heap"
  let ?h2 = "[[(''theme'', VStr ''dark''), (''sound'', VBool True)], [(''prefs'', VMap 0)],
              [(''prefs'', VMap 0)]] :: heap"
  have m: "memoryAfter ?doc [] = Inr (VMap 1, ?h1, 2)"
    by (simp add: memoryAfter_def)
  have n: "navigateToValue ?h1 (VMap 1) (strings_Split ''prefs.theme'' (CHR ''.''))
      = Inr (VStr ''dark'')"
    by (simp add: cell_def)
  have e: "valueEquals ?h1 (VStr ''dark'') (JStr ''dark'')"
    by simp
  have s: "strings_Split ''prefs.theme'' (CHR ''.'') = [''prefs'', ''theme'']"
    by simp
  have m2: "memoryAfter ?doc [NewKeepParentIfValueMatchesRule ''prefs.theme'' (JStr ''dark'')] =
      Inr (VMap 1, ?h2, 2)"
    by (simp add: memoryAfter_def NewKeepParentIfValueMatchesRule_def KeepPath_def
        KeepParentIfValueMatches_def applyKeepParentIfValueMatchesRule_def cell_def store_def)
  have p: "navigateToValue ?h1 (VMap 1) [''prefs''] = Inr (VMap 0)"
    by (simp add: cell_def)
  from KeepParent_result_navigation [OF m n e] obtain h2 parentValue where
    h2: "memoryAfter ?doc [NewKeepParentIfValueMatchesRule ''prefs.theme'' (JStr ''dark'')] =
      Inr (VMap 1, h2, 2)"
    and pv: "navigateToValue ?h1 (VMap 1) [''prefs''] = Inr parentValue"
    and r: "navigateToValue h2 (VMap 2) [''prefs''] = Inr parentValue"
      "navigateToValue h2 parentValue [''theme''] = Inr (VStr ''dark'')"
    unfolding s by auto
  from h2 m2 have "h2 = ?h2"
    by simp
  moreover from pv p have "parentValue = VMap 0"
    by simp
  ultimately show ?thesis
    using m n e m2 r by simp
qed

subsection \<open>Decoding and encoding\<close>

text \<open>
  The store that decoding leaves encodes to the document again: for a document whose
  objects hold a key once, the tree of the loaded root is the document.
\<close>

lemma update_new_key: "k \<notin> fst ` set al \<Longrightarrow> AList.update k v al = al @ [(k, v)]"
  by (induction al) auto

lemma cell_append_last: "cell (h @ m # ext) (length h) = m"
  by (simp add: cell_def nth_append)

lemma snapshot_fuel_mono:
  "snapshot n h v = Some j \<Longrightarrow> n \<le> n' \<Longrightarrow> snapshot n' h v = Some j"
  "snapshot_list n h vs = Some js \<Longrightarrow> n \<le> n' \<Longrightarrow> snapshot_list n' h vs = Some js"
  "snapshot_fields n h kvs = Some m \<Longrightarrow> n \<le> n' \<Longrightarrow> snapshot_fields n' h kvs = Some m"
proof (induction n h v and n h vs and n h kvs arbitrary: j n' and js n' and m n'
    rule: snapshot_snapshot_list_snapshot_fields.induct)
  case (1 n h)
  then show ?case by simp
next
  case (2 n h b)
  then show ?case by simp
next
  case (3 n h x)
  then show ?case by simp
next
  case (4 n h s)
  then show ?case by simp
next
  case (5 n h vs)
  from "5.prems"(1) obtain js where s: "snapshot_list n h vs = Some js" and j: "j = JArr js"
    by auto
  show ?case
    using "5.IH" [OF s "5.prems"(2)] by (simp add: j)
next
  case (6 h a)
  then show ?case by simp
next
  case (7 n h a)
  from "7.prems" obtain k where n': "n' = Suc k" and le: "n \<le> k"
    by (cases n') auto
  from "7.prems"(1) obtain m' where s: "snapshot_fields n h (cell h a) = Some m'"
    and j: "j = JObj m'"
    by auto
  show ?case
    using "7.IH" [OF s le] by (simp add: n' j)
next
  case (8 n h)
  then show ?case by simp
next
  case (9 n h v vs)
  from "9.prems"(1) obtain j1 where s1: "snapshot n h v = Some j1"
    by (cases "snapshot n h v") auto
  with "9.prems"(1) obtain js1 where s2: "snapshot_list n h vs = Some js1"
    and js: "js = j1 # js1"
    by (cases "snapshot_list n h vs") auto
  show ?case
    using "9.IH"(1) [OF s1 "9.prems"(2)] "9.IH"(2) [OF s1 s2 "9.prems"(2)] by (simp add: js)
next
  case (10 n h)
  then show ?case by simp
next
  case (11 n h k v kvs)
  from "11.prems"(1) obtain j1 where s1: "snapshot n h v = Some j1"
    by (cases "snapshot n h v") auto
  with "11.prems"(1) obtain m1 where s2: "snapshot_fields n h kvs = Some m1"
    and m: "m = (k, j1) # m1"
    by (cases "snapshot_fields n h kvs") auto
  show ?case
    using "11.IH"(1) [OF s1 "11.prems"(2)] "11.IH"(2) [OF s1 s2 "11.prems"(2)] by (simp add: m)
qed

lemma load_snapshot:
  "keysOnceDoc x \<Longrightarrow> load x h = (v, h') \<Longrightarrow>
     \<exists>new. h' = h @ new \<and> (\<forall>ext. snapshot (length new) (h' @ ext) v = Some x)"
  "list_all keysOnceDoc xs \<Longrightarrow> load_list xs h = (vs, h') \<Longrightarrow>
     \<exists>new. h' = h @ new \<and> (\<forall>ext. snapshot_list (length new) (h' @ ext) vs = Some xs)"
  "distinct (map fst acc @ map fst m) \<Longrightarrow> list_all (\<lambda>(k, x). keysOnceDoc x) m \<Longrightarrow>
   load_fields m acc h = (all, h') \<Longrightarrow>
     \<exists>new kvs. h' = h @ new \<and> all = acc @ kvs \<and>
        (\<forall>ext. snapshot_fields (length new) (h' @ ext) kvs = Some m)"
proof (induction x h and xs h and m acc h arbitrary: v h' and vs h' and all h'
    rule: load_load_list_load_fields.induct)
  case (1 h)
  then show ?case by auto
next
  case (2 b h)
  then show ?case by auto
next
  case (3 n h)
  then show ?case by auto
next
  case (4 s h)
  then show ?case by auto
next
  case (5 xs h)
  from "5.prems"(2) obtain vs where l: "load_list xs h = (vs, h')" and v: "v = VSlice vs"
    by (auto split: prod.splits)
  from "5.IH" [OF _ l] "5.prems"(1) obtain new where "h' = h @ new"
    and "\<And>ext. snapshot_list (length new) (h' @ ext) vs = Some xs"
    by auto
  then show ?case
    by (auto simp: v)
next
  case (6 m h)
  from "6.prems"(2) obtain kvs h1 where l: "load_fields m [] h = (kvs, h1)"
    and v: "v = VMap (length h1)" and h': "h' = h1 @ [kvs]"
    by (auto split: prod.splits)
  from "6.IH" [OF _ _ l] "6.prems"(1) obtain new where n: "h1 = h @ new"
    and s: "\<And>ext. snapshot_fields (length new) (h1 @ ext) kvs = Some m"
    by auto
  have "h' = h @ (new @ [kvs])"
    by (simp add: h' n)
  moreover have "snapshot (length (new @ [kvs])) (h' @ ext) v = Some (JObj m)" for ext
    using s [of "kvs # ext"] cell_append_last [of h1 kvs ext] by (simp add: v h')
  ultimately show ?case
    by (intro exI [of _ "new @ [kvs]"] conjI allI)
next
  case (7 h)
  then show ?case by auto
next
  case (8 x xs h)
  from "8.prems"(2) obtain v1 h1 vs1 where l1: "load x h = (v1, h1)"
    and l2: "load_list xs h1 = (vs1, h')" and vs: "vs = v1 # vs1"
    by (auto split: prod.splits)
  from "8.IH"(1) [OF _ l1] "8.prems"(1) obtain new1 where n1: "h1 = h @ new1"
    and s1: "\<And>ext. snapshot (length new1) (h1 @ ext) v1 = Some x"
    by auto
  from "8.IH"(2) [OF l1 [symmetric] _ l2] "8.prems"(1) obtain new2 where n2: "h' = h1 @ new2"
    and s2: "\<And>ext. snapshot_list (length new2) (h' @ ext) vs1 = Some xs"
    by auto
  have a: "snapshot (length (new1 @ new2)) (h' @ ext) v1 = Some x" for ext
    using snapshot_fuel_mono(1) [OF s1 [of "new2 @ ext"]] by (simp add: n2)
  have b: "snapshot_list (length (new1 @ new2)) (h' @ ext) vs1 = Some xs" for ext
    using snapshot_fuel_mono(2) [OF s2 [of ext]] by simp
  have "h' = h @ (new1 @ new2)"
    by (simp add: n1 n2)
  moreover have "snapshot_list (length (new1 @ new2)) (h' @ ext) vs = Some (x # xs)" for ext
    using a [of ext] b [of ext] by (simp add: vs)
  ultimately show ?case
    by (intro exI [of _ "new1 @ new2"] conjI allI)
next
  case (9 acc h)
  then show ?case by auto
next
  case (10 k x m acc h)
  from "10.prems"(3) obtain v1 h1 where l1: "load x h = (v1, h1)"
    and l2: "load_fields m (AList.update k v1 acc) h1 = (all, h')"
    by (auto split: prod.splits)
  from "10.IH"(1) [OF _ l1] "10.prems"(2) obtain new1 where n1: "h1 = h @ new1"
    and s1: "\<And>ext. snapshot (length new1) (h1 @ ext) v1 = Some x"
    by auto
  have "k \<notin> fst ` set acc"
    using "10.prems"(1) by auto
  then have u: "AList.update k v1 acc = acc @ [(k, v1)]"
    by (rule update_new_key)
  have d: "distinct (map fst (AList.update k v1 acc) @ map fst m)"
    using "10.prems"(1) by (auto simp: u)
  from "10.IH"(2) [OF l1 [symmetric] d _ l2] "10.prems"(2) obtain new2 kvs where
    n2: "h' = h1 @ new2" and f2: "all = AList.update k v1 acc @ kvs"
    and s2: "\<And>ext. snapshot_fields (length new2) (h' @ ext) kvs = Some m"
    by auto
  have a: "snapshot (length (new1 @ new2)) (h' @ ext) v1 = Some x" for ext
    using snapshot_fuel_mono(1) [OF s1 [of "new2 @ ext"]] by (simp add: n2)
  have b: "snapshot_fields (length (new1 @ new2)) (h' @ ext) kvs = Some m" for ext
    using snapshot_fuel_mono(3) [OF s2 [of ext]] by simp
  have "h' = h @ (new1 @ new2)"
    by (simp add: n1 n2)
  moreover have "all = acc @ ((k, v1) # kvs)"
    by (simp add: f2 u)
  moreover have "snapshot_fields (length (new1 @ new2)) (h' @ ext) ((k, v1) # kvs)
      = Some ((k, x) # m)" for ext
    using a [of ext] b [of ext] by simp
  ultimately show ?case
    by (intro exI [of _ "new1 @ new2"] exI [of _ "(k, v1) # kvs"] conjI allI)
qed

theorem load_then_snapshot:
  assumes "keysOnceDoc doc" and "load doc [] = (data, h)"
  shows "snapshot (length h) h data = Some doc"
proof -
  from load_snapshot(1) [OF assms] obtain new where "h = [] @ new"
    and "\<And>ext. snapshot (length new) (h @ ext) data = Some doc"
    by auto
  then show ?thesis
    using \<open>\<And>ext. snapshot (length new) (h @ ext) data = Some doc\<close> [of "[]"] by simp
qed

subsection \<open>The tests of the repository\<close>

lemmas eval_defs = rules_example_def CutWithRules_def applyRules_def NewKeepPathRule_def
  NewKeepParentIfValueMatchesRule_def NewKeepArrayElementsIfChildValueMatchesRule_def
  KeepPath_def KeepParentIfValueMatches_def KeepArrayElementsIfChildValueMatches_def
  applyKeepPathRule_def applyKeepParentIfValueMatchesRule_def
  applyKeepArrayElementsIfChildValueMatchesRule_def cell_def store_def elementIndex_def isDigit_def

text \<open>
  The four calls of the repository's test \<^verbatim>\<open>TestRules\<close>, on the example document:
  the outputs hold what the test asserts. In the fourth the rule on
  \<open>user.verified\<close> puts the whole of \<open>user\<close> in the result.
\<close>

theorem repository_tests_evaluate:
  "CutWithRules (Some rules_example) [NewKeepPathRule ''user.name'', NewKeepPathRule ''user.age'']
     = Inr (JObj [(''user'', JObj [(''name'', JStr ''John Doe''), (''age'', JNum 30)])]) \<and>
   CutWithRules (Some rules_example)
     [NewKeepParentIfValueMatchesRule ''user.preferences.theme'' (JStr ''dark'')]
     = Inr (JObj [(''user'', JObj [(''preferences'',
              JObj [(''theme'', JStr ''dark''), (''notifications'', JBool True)])])]) \<and>
   CutWithRules (Some rules_example)
     [NewKeepArrayElementsIfChildValueMatchesRule ''products'' ''category'' (JStr ''electronics'')]
     = Inr (JObj [(''products'', JArr
        [JObj [(''id'', JNum 101), (''name'', JStr ''Laptop''),
               (''category'', JStr ''electronics''), (''inStock'', JBool True)],
         JObj [(''id'', JNum 102), (''name'', JStr ''Smartphone''),
               (''category'', JStr ''electronics''), (''inStock'', JBool False)]])]) \<and>
   CutWithRules (Some rules_example)
     [NewKeepPathRule ''user.name'',
      NewKeepParentIfValueMatchesRule ''user.verified'' (JBool True),
      NewKeepArrayElementsIfChildValueMatchesRule ''products'' ''inStock'' (JBool True)]
     = Inr (JObj
        [(''user'', JObj
           [(''name'', JStr ''John Doe''), (''age'', JNum 30), (''verified'', JBool True),
            (''preferences'', JObj [(''theme'', JStr ''dark''), (''notifications'', JBool True)])]),
         (''products'', JArr
           [JObj [(''id'', JNum 101), (''name'', JStr ''Laptop''),
                  (''category'', JStr ''electronics''), (''inStock'', JBool True)],
            JObj [(''id'', JNum 103), (''name'', JStr ''Headphones''),
                  (''category'', JStr ''accessories''), (''inStock'', JBool True)]])])"
proof -
  have 1: "CutWithRules (Some rules_example)
      [NewKeepPathRule ''user.name'', NewKeepPathRule ''user.age'']
     = Inr (JObj [(''user'', JObj [(''name'', JStr ''John Doe''), (''age'', JNum 30)])])"
    by (simp add: eval_defs)
  have 2: "CutWithRules (Some rules_example)
     [NewKeepParentIfValueMatchesRule ''user.preferences.theme'' (JStr ''dark'')]
     = Inr (JObj [(''user'', JObj [(''preferences'',
              JObj [(''theme'', JStr ''dark''), (''notifications'', JBool True)])])])"
    by (simp add: eval_defs)
  have 3: "CutWithRules (Some rules_example)
     [NewKeepArrayElementsIfChildValueMatchesRule ''products'' ''category'' (JStr ''electronics'')]
     = Inr (JObj [(''products'', JArr
        [JObj [(''id'', JNum 101), (''name'', JStr ''Laptop''),
               (''category'', JStr ''electronics''), (''inStock'', JBool True)],
         JObj [(''id'', JNum 102), (''name'', JStr ''Smartphone''),
               (''category'', JStr ''electronics''), (''inStock'', JBool False)]])])"
    by (simp add: eval_defs)
  have 4: "CutWithRules (Some rules_example)
     [NewKeepPathRule ''user.name'',
      NewKeepParentIfValueMatchesRule ''user.verified'' (JBool True),
      NewKeepArrayElementsIfChildValueMatchesRule ''products'' ''inStock'' (JBool True)]
     = Inr (JObj
        [(''user'', JObj
           [(''name'', JStr ''John Doe''), (''age'', JNum 30), (''verified'', JBool True),
            (''preferences'', JObj [(''theme'', JStr ''dark''), (''notifications'', JBool True)])]),
         (''products'', JArr
           [JObj [(''id'', JNum 101), (''name'', JStr ''Laptop''),
                  (''category'', JStr ''electronics''), (''inStock'', JBool True)],
            JObj [(''id'', JNum 103), (''name'', JStr ''Headphones''),
                  (''category'', JStr ''accessories''), (''inStock'', JBool True)]])])"
    by (simp add: eval_defs)
  from 1 2 3 4 show ?thesis
    by (intro conjI)
qed

text \<open>A call without rules returns the empty object.\<close>

theorem no_rules_empty_object: "CutWithRules (Some doc) [] = Inr (JObj [])"
  by (simp add: CutWithRules_def applyRules_def cell_def split: prod.splits)

end
